theory Spec2Isabelle
  imports Main "HOL-Library.Sublist"
begin

section \<open>String primitives of the host language\<close>

text \<open>
  \<^verbatim>\<open>FS.common.js\<close> works on JavaScript strings with \<^verbatim>\<open>indexOf\<close>, \<^verbatim>\<open>split\<close>,
  \<^verbatim>\<open>join\<close>, \<^verbatim>\<open>slice\<close> and \<^verbatim>\<open>substring\<close>. Strings are modelled as \<^typ>\<open>string\<close>
  (lists of characters); every function below is character-wise, so the width of a
  character plays no role.
\<close>

text \<open>\<^verbatim>\<open>s.indexOf(sep)\<close>: index of the first occurrence of \<open>sep\<close>, or \<open>-1\<close>.\<close>

fun indexOf :: "string \<Rightarrow> string \<Rightarrow> int" where
  "indexOf sep [] = (if sep = [] then 0 else -1)"
| "indexOf sep (c # cs) =
     (if prefix sep (c # cs) then 0
      else (let i = indexOf sep cs in if i < 0 then -1 else i + 1))"

text \<open>
  \<^verbatim>\<open>s.split(sep)\<close> for a non-empty separator: the pieces between the occurrences of
  \<open>sep\<close>, found from left to right without overlap. The empty string splits into one
  empty piece. The source only splits at the literals \<^verbatim>\<open>'://'\<close> and \<^verbatim>\<open>'/'\<close>.
\<close>

function splitStr :: "string \<Rightarrow> string \<Rightarrow> string list" where
  "splitStr sep [] = [[]]"
| "splitStr sep (c # cs) =
     (if sep \<noteq> [] \<and> prefix sep (c # cs)
      then [] # splitStr sep (drop (length sep) (c # cs))
      else (case splitStr sep cs of [] \<Rightarrow> [[c]] | x # xs \<Rightarrow> (c # x) # xs))"
  by pat_completeness auto
termination
  by (relation "measure (\<lambda>(sep, s). length s)") auto

text \<open>\<^verbatim>\<open>parts.join(sep)\<close>; the empty array joins to the empty string.\<close>

fun joinStr :: "string \<Rightarrow> string list \<Rightarrow> string" where
  "joinStr sep [] = []"
| "joinStr sep [x] = x"
| "joinStr sep (x # y # ys) = x @ sep @ joinStr sep (y # ys)"

text \<open>
  Truthiness of a value that is \<^verbatim>\<open>null\<close>/\<^verbatim>\<open>undefined\<close> (\<open>None\<close>) or a string: only a
  non-empty string is truthy.
\<close>

fun truthy :: "string option \<Rightarrow> bool" where
  "truthy None = False"
| "truthy (Some s) = (s \<noteq> [])"

section \<open>Path Normalizer\<close>

text \<open>
  Lines 76--85 of \<^verbatim>\<open>normalizePath\<close>: the scheme and the schemeless rest. When the path
  contains \<^verbatim>\<open>'://'\<close> the source reads \<^verbatim>\<open>split[0]\<close> and \<^verbatim>\<open>split[1]\<close>; lemma
  \<open>splitStr_two\<close> below shows that both indices exist in that case.
\<close>

definition schemeSplit :: "string \<Rightarrow> string option \<times> string" where
  "schemeSplit path =
     (if indexOf ''://'' path > -1
      then (let split = splitStr ''://'' path in (Some (split ! 0), split ! 1))
      else (None, path))"

text \<open>
  Lines 88--98: the loop over \<open>parts\<close> with index \<open>i\<close> and the array \<open>normParts\<close>.
  \<^verbatim>\<open>push\<close> appends at the end, \<^verbatim>\<open>pop\<close> removes the last element and does nothing on
  the empty array.
\<close>

function normLoop :: "string list \<Rightarrow> nat \<Rightarrow> string list \<Rightarrow> string list" where
  "normLoop parts i normParts =
     (if i < length parts
      then (let p = parts ! i in
            if p = ''.'' then normLoop parts (i + 1) normParts
            else if p = ''..'' then normLoop parts (i + 1) (butlast normParts)
            else normLoop parts (i + 1) (normParts @ [p]))
      else normParts)"
  by pat_completeness auto
termination
  by (relation "measure (\<lambda>(parts, i, normParts). length parts - i)") auto

declare normLoop.simps [simp del]

definition normalizePath :: "string \<Rightarrow> string" where
  "normalizePath path =
     (let (scheme, schemeless) = schemeSplit path;
          parts = splitStr ''/'' schemeless;
          normParts = normLoop parts 0 []
      in if truthy scheme
         then the scheme @ ''://'' @ joinStr ''/'' normParts
         else joinStr ''/'' normParts)"

text \<open>
  The fold of section 4.1 of the specification, in its words: a \<open>.\<close> segment is dropped,
  a \<open>..\<close> segment pops the most recently kept segment (nothing happens on the empty
  accumulator), every other segment is kept in order.
\<close>

definition spec_step :: "string list \<Rightarrow> string \<Rightarrow> string list" where
  "spec_step acc seg =
     (if seg = ''.'' then acc
      else if seg = ''..'' then (if acc = [] then [] else butlast acc)
      else acc @ [seg])"

text \<open>Two notions used to state and prove the properties of \<open>normalizePath\<close>.\<close>

definition dotfree :: "string list \<Rightarrow> bool" where
  "dotfree segs = (''.'' \<notin> set segs \<and> ''..'' \<notin> set segs)"

definition normBody :: "string \<Rightarrow> string" where
  "normBody r = joinStr ''/'' (normLoop (splitStr ''/'' r) 0 [])"

section \<open>Errors\<close>

text \<open>
  A JavaScript error object with the fields that \<^verbatim>\<open>convertError\<close> reads. \<^verbatim>\<open>new Error(m)\<close>
  has only a message; the errors of the native module arrive through the promisified
  primitives and may carry a code, a description, and a cause marked operational.
\<close>

datatype jserror =
  JSError (message: string) (code: "string option") (description: "string option")
    (isOperational: bool) (cause: "jserror option")

definition newError :: "string \<Rightarrow> jserror" where
  "newError m = JSError m None None False None"

text \<open>\<^verbatim>\<open>convertError\<close> always throws; the model returns the error it throws.\<close>

definition convertError :: "jserror \<Rightarrow> jserror" where
  "convertError err0 =
     (let err = (if isOperational err0 \<and> cause err0 \<noteq> None then the (cause err0) else err0)
      in JSError (if truthy (description err) then the (description err) else message err)
           (code err) None False None)"

section \<open>Root Policy\<close>

text \<open>
  The constants of the native module, the platform and the global application
  identifier are not part of \<^verbatim>\<open>FS.common.js\<close>; they are parameters of the model.
  \<open>appID = None\<close> stands for an identifier that is \<^verbatim>\<open>undefined\<close> or \<^verbatim>\<open>null\<close>. The two
  flags say whether the \<^verbatim>\<open>addListener\<close> entry point of each event emitter exists.
\<close>

record config =
  NSCachesDirectoryPath :: string
  NSDocumentDirectoryPath :: string
  NSLibraryDirectoryPath :: string
  PlatformOS :: string
  appID :: "string option"
  NSFileTypeRegular :: string
  NSFileTypeDirectory :: string
  nativeAppAddListener :: bool
  deviceAddListener :: bool

definition processDirPath :: "config \<Rightarrow> string \<Rightarrow> jserror + string" where
  "processDirPath cfg path =
     (case appID cfg of
        None \<Rightarrow> Inl (newError ''Global appID must be set.'')
      | Some a \<Rightarrow>
          if length a < 1 then Inl (newError ''Global appID must be set.'')
          else (let ext = ''siphon-data-'' @ a;
                    lastChar = (if path = [] then [] else [last path]);
                    ext = (if lastChar \<noteq> ''/'' then ''/'' @ ext else ext)
                in Inr (path @ ext)))"

text \<open>The array \<open>validDirs\<close> of \<^verbatim>\<open>rootDir\<close>, in the order in which it is built.\<close>

definition validDirs :: "config \<Rightarrow> jserror + string list" where
  "validDirs cfg =
     (case processDirPath cfg (NSCachesDirectoryPath cfg) of
        Inl e \<Rightarrow> Inl e
      | Inr c \<Rightarrow>
          (case processDirPath cfg (NSDocumentDirectoryPath cfg) of
             Inl e \<Rightarrow> Inl e
           | Inr d \<Rightarrow>
               if PlatformOS cfg = ''ios''
               then (case processDirPath cfg (NSLibraryDirectoryPath cfg) of
                       Inl e \<Rightarrow> Inl e
                     | Inr l \<Rightarrow> Inr [c, d, l])
               else Inr [c, d]))"

text \<open>
  The search loop of \<^verbatim>\<open>rootDir\<close>: \<^verbatim>\<open>path.substring(0, d.length) == d\<close>, leaving at the
  first hit.
\<close>

fun findRoot :: "string \<Rightarrow> string list \<Rightarrow> string option" where
  "findRoot path [] = None"
| "findRoot path (d # ds) =
     (if take (length d) path = d then Some (take (length d) path) else findRoot path ds)"

definition rootDir :: "config \<Rightarrow> string \<Rightarrow> jserror + string option" where
  "rootDir cfg path0 =
     (let path = normalizePath path0
      in case validDirs cfg of
           Inl e \<Rightarrow> Inl e
         | Inr dirs \<Rightarrow> Inr (findRoot path dirs))"

section \<open>Effects: the native module, the event emitters, the job counter\<close>

text \<open>
  What an operation does to the outside is recorded as a trace of events: each call of
  a primitive of the native module with its arguments, each \<^verbatim>\<open>addListener\<close> and
  \<^verbatim>\<open>remove\<close> on an event emitter, each \<^verbatim>\<open>console.log\<close>. The event \<open>Guard p\<close> marks an
  entry into \<^verbatim>\<open>_ensureValidRoot(p)\<close>, so that invocations of the guard can be counted.
\<close>

datatype emitter = NativeAppEventEmitter | DeviceEventEmitter

text \<open>
  A listener is the default begin callback installed by \<^verbatim>\<open>downloadFile\<close> or a function
  supplied by the caller, identified by a number.
\<close>

datatype callback = DefaultBeginLog | UserCallback nat

datatype subscription = Subscription emitter string callback

type_synonym options = "(string \<times> string) list option"

datatype call =
    ReadDir string
  | Exists string
  | Stat string
  | ReadFile string
  | WriteFile string string options
  | MoveFile string string
  | Unlink string
  | Mkdir "string option" bool
  | DownloadFile string string nat
  | StopDownload nat

datatype event =
    Guard string
  | Native call
  | AddListener emitter string callback
  | Remove subscription
  | ConsoleLog "string list"

text \<open>
  The module-level state: the counter \<^verbatim>\<open>jobId\<close> (line 42) and the trace so far.
\<close>

record state =
  trace :: "event list"
  jobId :: nat

definition initState :: state where
  "initState = \<lparr>trace = [], jobId = 0\<rparr>"

text \<open>
  An asynchronous computation: from a state to a settled promise, \<open>Inl\<close> rejected with an
  error and \<open>Inr\<close> resolved with a value, and the state after it. Within one operation
  the steps run one after the other.
\<close>

type_synonym 'a promise = "state \<Rightarrow> (jserror + 'a) \<times> state"

definition emit :: "event \<Rightarrow> state \<Rightarrow> state" where
  "emit ev s = s\<lparr>trace := trace s @ [ev]\<rparr>"

definition resolve :: "'a \<Rightarrow> 'a promise" where
  "resolve a s = (Inr a, s)"

definition reject :: "jserror \<Rightarrow> 'a promise" where
  "reject e s = (Inl e, s)"

definition settle :: "jserror + 'a \<Rightarrow> 'a promise" where
  "settle r s = (r, s)"

text \<open>\<^verbatim>\<open>m.then(f)\<close> and \<^verbatim>\<open>m.catch(h)\<close>.\<close>

definition thenP :: "'a promise \<Rightarrow> ('a \<Rightarrow> 'b promise) \<Rightarrow> 'b promise" where
  "thenP m f s = (case m s of (Inl e, s') \<Rightarrow> (Inl e, s') | (Inr a, s') \<Rightarrow> f a s')"

definition catchP :: "'a promise \<Rightarrow> (jserror \<Rightarrow> 'a promise) \<Rightarrow> 'a promise" where
  "catchP m h s = (case m s of (Inl e, s') \<Rightarrow> h e s' | (Inr a, s') \<Rightarrow> (Inr a, s'))"

definition catchConvert :: "'a promise \<Rightarrow> 'a promise" where
  "catchConvert m = catchP m (\<lambda>e. reject (convertError e))"

text \<open>
  The native module is outside \<^verbatim>\<open>FS.common.js\<close>. Each promisified primitive is a
  parameter: given the trace so far and the arguments it settles with an error or a
  value. \<^verbatim>\<open>mkdir\<close> takes the path as the source passes it, which may be \<^verbatim>\<open>null\<close>.
\<close>

record rawFile =
  raw_name :: string
  raw_path :: string
  raw_size :: int
  raw_type :: string

record rawStat =
  raw_ctime :: int
  raw_mtime :: int
  raw_stat_size :: int
  raw_mode :: int
  raw_stat_type :: string

record downloadResult =
  res_jobId :: nat
  res_statusCode :: int
  res_bytesWritten :: int

record native =
  RNFS_readDir :: "event list \<Rightarrow> string \<Rightarrow> jserror + rawFile list"
  RNFS_exists :: "event list \<Rightarrow> string \<Rightarrow> jserror + bool"
  RNFS_stat :: "event list \<Rightarrow> string \<Rightarrow> jserror + rawStat"
  RNFS_readFile :: "event list \<Rightarrow> string \<Rightarrow> jserror + string"
  RNFS_writeFile :: "event list \<Rightarrow> string \<Rightarrow> string \<Rightarrow> options \<Rightarrow> jserror + unit"
  RNFS_moveFile :: "event list \<Rightarrow> string \<Rightarrow> string \<Rightarrow> jserror + unit"
  RNFS_unlink :: "event list \<Rightarrow> string \<Rightarrow> jserror + unit"
  RNFS_mkdir :: "event list \<Rightarrow> string option \<Rightarrow> bool \<Rightarrow> jserror + unit"
  RNFS_downloadFile :: "event list \<Rightarrow> string \<Rightarrow> string \<Rightarrow> nat \<Rightarrow> jserror + downloadResult"

text \<open>A call of a promisified primitive: the call is recorded, the primitive answers.\<close>

definition callNative :: "call \<Rightarrow> (event list \<Rightarrow> jserror + 'a) \<Rightarrow> 'a promise" where
  "callNative c answer s = (answer (trace s), emit (Native c) s)"

text \<open>The libraries \<^verbatim>\<open>base-64\<close> and \<^verbatim>\<open>utf8\<close>; each function may throw.\<close>

record codec =
  base64_encode :: "string \<Rightarrow> jserror + string"
  base64_decode :: "string \<Rightarrow> jserror + string"
  utf8_encode :: "string \<Rightarrow> jserror + string"
  utf8_decode :: "string \<Rightarrow> jserror + string"

section \<open>Job Registry\<close>

text \<open>
  The counter \<^verbatim>\<open>jobId\<close> is a JavaScript number, an IEEE double. It starts at 0 and is
  only ever changed by \<^verbatim>\<open>jobId += 1\<close>, so its values are whole numbers from 0 to \<open>2 ^ 53\<close>,
  each of them exact. Below \<open>2 ^ 53\<close> the addition is exact. At \<open>2 ^ 53\<close> the sum
  \<open>2 ^ 53 + 1\<close> is not a double and is rounded (to even) back to \<open>2 ^ 53\<close>: the counter
  stays where it is.
\<close>

definition jobIdLimit :: nat where
  "jobIdLimit = 2 ^ 53"

definition doubleSucc :: "nat \<Rightarrow> nat" where
  "doubleSucc n = (if n < jobIdLimit then n + 1 else n)"

text \<open>Lines 44--47: the counter is incremented, then returned.\<close>

definition getJobId :: "state \<Rightarrow> nat \<times> state" where
  "getJobId s = (let s' = s\<lparr>jobId := doubleSucc (jobId s)\<rparr> in (jobId s', s'))"

text \<open>\<open>n\<close> calls of \<^verbatim>\<open>getJobId\<close> one after the other, with the identifiers they return.\<close>

fun getJobIds :: "nat \<Rightarrow> state \<Rightarrow> nat list \<times> state" where
  "getJobIds 0 s = ([], s)"
| "getJobIds (Suc n) s =
     (let (j, s') = getJobId s; (js, s'') = getJobIds n s' in (j # js, s''))"

declare getJobIds.simps [simp del]

text \<open>The decimal numeral of a number, as string concatenation produces it.\<close>

function showNat :: "nat \<Rightarrow> string" where
  "showNat n =
     (if n < 10 then [''0123456789'' ! n]
      else showNat (n div 10) @ [''0123456789'' ! (n mod 10)])"
  by pat_completeness auto
termination
  by (relation "measure id") auto

declare showNat.simps [simp del]

definition addListener :: "emitter \<Rightarrow> string \<Rightarrow> callback \<Rightarrow> state \<Rightarrow> subscription \<times> state" where
  "addListener em ev cb s = (Subscription em ev cb, emit (AddListener em ev cb) s)"

text \<open>
  The body of \<^verbatim>\<open>if (begin) {...}\<close> and of \<^verbatim>\<open>if (progress) {...}\<close> in \<^verbatim>\<open>downloadFile\<close>:
  each available emitter registers the listener and the handle is assigned to
  \<open>subscriptionIos\<close> or \<open>subscriptionAndroid\<close>; a variable that is not assigned keeps its
  value.
\<close>

definition subscribe ::
  "config \<Rightarrow> string \<Rightarrow> callback \<Rightarrow> subscription option \<times> subscription option \<Rightarrow> state
     \<Rightarrow> (subscription option \<times> subscription option) \<times> state" where
  "subscribe cfg ev cb subs s =
     (let (subscriptionIos, s1) =
            (if nativeAppAddListener cfg
             then (let (h, s') = addListener NativeAppEventEmitter ev cb s in (Some h, s'))
             else (fst subs, s));
          (subscriptionAndroid, s2) =
            (if deviceAddListener cfg
             then (let (h, s') = addListener DeviceEventEmitter ev cb s1 in (Some h, s'))
             else (snd subs, s1))
      in ((subscriptionIos, subscriptionAndroid), s2))"

text \<open>\<^verbatim>\<open>if (sub) sub.remove()\<close>.\<close>

definition removeIfSet :: "subscription option \<Rightarrow> state \<Rightarrow> state" where
  "removeIfSet sub s = (case sub of None \<Rightarrow> s | Some h \<Rightarrow> emit (Remove h) s)"

text \<open>What the default begin callback does when the event fires: one log line.\<close>

definition defaultBegin :: "string \<Rightarrow> event list" where
  "defaultBegin info = [ConsoleLog [''Download begun:'', info]]"

section \<open>Root Guarantor\<close>

definition invalidRootError :: jserror where
  "invalidRootError =
     newError (''Warning: Invalid directory for Siphon app. '' @
               ''Please use one of DocumentDirectoryPath, '' @
               ''CachesDirectoryPath or LibraryDirectoryPath (iOS only).'')"

text \<open>
  \<^verbatim>\<open>_ensureValidRoot\<close>, lines 138--159. An exception inside the executor rejects the
  promise. \<^verbatim>\<open>reject(...)\<close> for a missing root is not followed by a \<^verbatim>\<open>return\<close>: the
  executor goes on, compares the root with the caches root and calls \<^verbatim>\<open>_mkdir\<close>. A
  promise settles once, so what comes after a \<^verbatim>\<open>reject\<close> cannot change its outcome, but
  the call of the primitive is made.
\<close>

definition ensureValidRoot :: "config \<Rightarrow> native \<Rightarrow> string \<Rightarrow> unit promise" where
  "ensureValidRoot cfg mgr path s0 =
     (let s = emit (Guard path) s0
      in case rootDir cfg path of
           Inl e \<Rightarrow> (Inl e, s)
         | Inr root \<Rightarrow>
             (let rejected = (if \<not> truthy root then Some invalidRootError else None)
              in case processDirPath cfg (NSCachesDirectoryPath cfg) of
                   Inl e \<Rightarrow> (Inl (case rejected of Some r \<Rightarrow> r | None \<Rightarrow> e), s)
                 | Inr caches \<Rightarrow>
                     (let excludeFromBackup = (root = Some caches);
                          (made, s') = callNative (Mkdir root excludeFromBackup)
                                         (\<lambda>tr. RNFS_mkdir mgr tr root excludeFromBackup) s
                      in case rejected of
                           Some r \<Rightarrow> (Inl r, s')
                         | None \<Rightarrow> (case made of Inl e \<Rightarrow> (Inl e, s') | Inr u \<Rightarrow> (Inr (), s')))))"

section \<open>Operation Facade\<close>

text \<open>
  The result shapes. The closures \<^verbatim>\<open>isFile\<close> and \<^verbatim>\<open>isDirectory\<close> of the source are
  stored as the truth values they return.
\<close>

record dirItem =
  item_name :: string
  item_path :: string
  item_size :: int
  item_isFile :: bool
  item_isDirectory :: bool

record statResult =
  stat_ctime :: int
  stat_mtime :: int
  stat_size :: int
  stat_mode :: int
  stat_isFile :: bool
  stat_isDirectory :: bool

definition shapeFile :: "config \<Rightarrow> rawFile \<Rightarrow> dirItem" where
  "shapeFile cfg file =
     \<lparr>item_name = raw_name file, item_path = raw_path file, item_size = raw_size file,
      item_isFile = (raw_type file = NSFileTypeRegular cfg),
      item_isDirectory = (raw_type file = NSFileTypeDirectory cfg)\<rparr>"

definition readDir :: "config \<Rightarrow> native \<Rightarrow> string \<Rightarrow> dirItem list promise" where
  "readDir cfg mgr dirpath =
     catchConvert
       (thenP (ensureValidRoot cfg mgr dirpath) (\<lambda>u.
          catchConvert
            (thenP (callNative (ReadDir dirpath) (\<lambda>tr. RNFS_readDir mgr tr dirpath))
               (\<lambda>files. resolve (map (shapeFile cfg) files)))))"

definition readdir :: "config \<Rightarrow> native \<Rightarrow> string \<Rightarrow> string list promise" where
  "readdir cfg mgr dirpath =
     thenP (ensureValidRoot cfg mgr dirpath) (\<lambda>u.
       thenP (readDir cfg mgr dirpath) (\<lambda>files. resolve (map item_name files)))"

text \<open>Timestamps are whole seconds in the model; the source multiplies them by 1000.\<close>

definition stat :: "config \<Rightarrow> native \<Rightarrow> string \<Rightarrow> statResult promise" where
  "stat cfg mgr filepath =
     thenP (ensureValidRoot cfg mgr filepath) (\<lambda>u.
       catchConvert
         (thenP (callNative (Stat filepath) (\<lambda>tr. RNFS_stat mgr tr filepath))
            (\<lambda>result. resolve
               \<lparr>stat_ctime = raw_ctime result * 1000, stat_mtime = raw_mtime result * 1000,
                stat_size = raw_stat_size result, stat_mode = raw_mode result,
                stat_isFile = (raw_stat_type result = NSFileTypeRegular cfg),
                stat_isDirectory = (raw_stat_type result = NSFileTypeDirectory cfg)\<rparr>)))"

definition exists :: "config \<Rightarrow> native \<Rightarrow> string \<Rightarrow> bool promise" where
  "exists cfg mgr filepath =
     thenP (ensureValidRoot cfg mgr filepath) (\<lambda>u.
       catchConvert (callNative (Exists filepath) (\<lambda>tr. RNFS_exists mgr tr filepath)))"

text \<open>\<^verbatim>\<open>if (!encoding) encoding = 'utf8'\<close>.\<close>

definition encodingOrDefault :: "string option \<Rightarrow> string" where
  "encodingOrDefault encoding = (if \<not> truthy encoding then ''utf8'' else the encoding)"

definition invalidEncodingError :: "string \<Rightarrow> jserror" where
  "invalidEncodingError encoding =
     newError (''Invalid encoding type '' @ [CHR 0x22] @ encoding @ [CHR 0x22])"

definition readFile :: "config \<Rightarrow> native \<Rightarrow> codec \<Rightarrow> string \<Rightarrow> string option \<Rightarrow> string promise" where
  "readFile cfg mgr cd filepath encoding0 =
     (let encoding = encodingOrDefault encoding0
      in thenP (ensureValidRoot cfg mgr filepath) (\<lambda>u.
           catchConvert
             (thenP (callNative (ReadFile filepath) (\<lambda>tr. RNFS_readFile mgr tr filepath))
                (\<lambda>b64.
                   if encoding = ''utf8''
                   then settle (case base64_decode cd b64 of
                                  Inl e \<Rightarrow> Inl e | Inr bytes \<Rightarrow> utf8_decode cd bytes)
                   else if encoding = ''ascii'' then settle (base64_decode cd b64)
                   else if encoding = ''base64'' then resolve b64
                   else reject (invalidEncodingError encoding)))))"

text \<open>
  In \<^verbatim>\<open>writeFile\<close> the content is encoded, or the encoding refused (lines 245--253,
  \<open>encodeContents\<close>), before the promise chain starts; an exception there leaves the
  function at once. The model returns it as a rejection.
\<close>

definition encodeContents :: "codec \<Rightarrow> string \<Rightarrow> string \<Rightarrow> jserror + string" where
  "encodeContents cd contents encoding =
     (if encoding = ''utf8''
      then (case utf8_encode cd contents of
              Inl e \<Rightarrow> Inl e | Inr bytes \<Rightarrow> base64_encode cd bytes)
      else if encoding = ''ascii'' then base64_encode cd contents
      else if encoding = ''base64'' then Inr contents
      else Inl (invalidEncodingError encoding))"

definition writeFile ::
  "config \<Rightarrow> native \<Rightarrow> codec \<Rightarrow> string \<Rightarrow> string \<Rightarrow> string option \<Rightarrow> options \<Rightarrow> unit promise" where
  "writeFile cfg mgr cd filepath contents encoding0 opts =
     (let encoding = encodingOrDefault encoding0
      in case encodeContents cd contents encoding of
           Inl e \<Rightarrow> reject e
         | Inr b64 \<Rightarrow>
             thenP (ensureValidRoot cfg mgr filepath) (\<lambda>u.
               catchConvert
                 (callNative (WriteFile filepath b64 opts)
                    (\<lambda>tr. RNFS_writeFile mgr tr filepath b64 opts))))"

definition moveFile :: "config \<Rightarrow> native \<Rightarrow> string \<Rightarrow> string \<Rightarrow> unit promise" where
  "moveFile cfg mgr filepath destPath =
     thenP (ensureValidRoot cfg mgr filepath) (\<lambda>u.
       catchConvert
         (callNative (MoveFile filepath destPath) (\<lambda>tr. RNFS_moveFile mgr tr filepath destPath)))"

definition pathForBundle :: "string \<Rightarrow> state \<Rightarrow> state" where
  "pathForBundle bundleName s = emit (ConsoleLog [''Warning: pathForBundle is disabled by Siphon.'']) s"

definition unlink :: "config \<Rightarrow> native \<Rightarrow> string \<Rightarrow> unit promise" where
  "unlink cfg mgr filepath =
     thenP (ensureValidRoot cfg mgr filepath) (\<lambda>u.
       catchConvert (callNative (Unlink filepath) (\<lambda>tr. RNFS_unlink mgr tr filepath)))"

text \<open>\<^verbatim>\<open>!!excludeFromBackup\<close>: an absent flag is \<^verbatim>\<open>false\<close>.\<close>

definition mkdir :: "config \<Rightarrow> native \<Rightarrow> string \<Rightarrow> bool option \<Rightarrow> unit promise" where
  "mkdir cfg mgr filepath excludeFromBackup0 =
     thenP (ensureValidRoot cfg mgr filepath) (\<lambda>u.
       (let excludeFromBackup = (excludeFromBackup0 = Some True)
        in catchConvert
             (callNative (Mkdir (Some filepath) excludeFromBackup)
                (\<lambda>tr. RNFS_mkdir mgr tr (Some filepath) excludeFromBackup))))"

definition downloadFile ::
  "config \<Rightarrow> native \<Rightarrow> string \<Rightarrow> string \<Rightarrow> callback option \<Rightarrow> callback option
     \<Rightarrow> downloadResult promise" where
  "downloadFile cfg mgr fromUrl toFile begin0 progress s0 =
     (let (jobId, s1) = getJobId s0;
          begin = (case begin0 of None \<Rightarrow> Some DefaultBeginLog | Some b \<Rightarrow> Some b);
          (subs1, s2) =
            (case begin of
               None \<Rightarrow> ((None, None), s1)
             | Some b \<Rightarrow> subscribe cfg (''DownloadBegin-'' @ showNat jobId) b (None, None) s1);
          (subs2, s3) =
            (case progress of
               None \<Rightarrow> (subs1, s2)
             | Some p \<Rightarrow> subscribe cfg (''DownloadProgress-'' @ showNat jobId) p subs1 s2)
      in thenP (ensureValidRoot cfg mgr toFile) (\<lambda>u.
           catchConvert
             (thenP (callNative (DownloadFile fromUrl toFile jobId)
                       (\<lambda>tr. RNFS_downloadFile mgr tr fromUrl toFile jobId))
                (\<lambda>res s. (Inr res, removeIfSet (snd subs2) (removeIfSet (fst subs2) s)))))
           s3)"

definition stopDownload :: "nat \<Rightarrow> state \<Rightarrow> state" where
  "stopDownload j s = emit (Native (StopDownload j)) s"

section \<open>Concrete configurations and native modules\<close>

text \<open>
  Inputs at which the operations are evaluated: an iOS and an Android configuration,
  a native module on which every primitive succeeds, and one whose download fails.
\<close>

definition iosConfig :: config where
  "iosConfig =
     \<lparr>NSCachesDirectoryPath = ''/app/Library/Caches'',
      NSDocumentDirectoryPath = ''/app/Documents'',
      NSLibraryDirectoryPath = ''/app/Library'',
      PlatformOS = ''ios'',
      appID = Some ''demo'',
      NSFileTypeRegular = ''NSFileTypeRegular'',
      NSFileTypeDirectory = ''NSFileTypeDirectory'',
      nativeAppAddListener = True,
      deviceAddListener = False\<rparr>"

definition androidConfig :: config where
  "androidConfig =
     \<lparr>NSCachesDirectoryPath = ''/data/app/cache'',
      NSDocumentDirectoryPath = ''/data/app/files'',
      NSLibraryDirectoryPath = [],
      PlatformOS = ''android'',
      appID = Some ''demo'',
      NSFileTypeRegular = ''0'',
      NSFileTypeDirectory = ''1'',
      nativeAppAddListener = False,
      deviceAddListener = True\<rparr>"

text \<open>A configuration in which the documents base lies inside the caches root.\<close>

definition nestedConfig :: config where
  "nestedConfig =
     \<lparr>NSCachesDirectoryPath = ''/a'',
      NSDocumentDirectoryPath = ''/a/siphon-data-x'',
      NSLibraryDirectoryPath = [],
      PlatformOS = ''android'',
      appID = Some ''x'',
      NSFileTypeRegular = ''0'',
      NSFileTypeDirectory = ''1'',
      nativeAppAddListener = False,
      deviceAddListener = True\<rparr>"

definition okNative :: native where
  "okNative =
     \<lparr>RNFS_readDir = (\<lambda>tr p. Inr []),
      RNFS_exists = (\<lambda>tr p. Inr True),
      RNFS_stat = (\<lambda>tr p. Inr \<lparr>raw_ctime = 0, raw_mtime = 0, raw_stat_size = 0, raw_mode = 0,
                                  raw_stat_type = []\<rparr>),
      RNFS_readFile = (\<lambda>tr p. Inr ''aGk=''),
      RNFS_writeFile = (\<lambda>tr p b opts. Inr ()),
      RNFS_moveFile = (\<lambda>tr p q. Inr ()),
      RNFS_unlink = (\<lambda>tr p. Inr ()),
      RNFS_mkdir = (\<lambda>tr p ex. Inr ()),
      RNFS_downloadFile = (\<lambda>tr u f j. Inr \<lparr>res_jobId = j, res_statusCode = 200,
                                               res_bytesWritten = 2\<rparr>)\<rparr>"

definition networkError :: jserror where
  "networkError =
     JSError ''OperationalError'' None None True
       (Some (JSError ''The network connection was lost.'' (Some ''ENETWORK'') None False None))"

definition failingDownload :: native where
  "failingDownload = okNative\<lparr>RNFS_downloadFile := (\<lambda>tr u f j. Inl networkError)\<rparr>"

definition idCodec :: codec where
  "idCodec =
     \<lparr>base64_encode = Inr, base64_decode = Inr, utf8_encode = Inr, utf8_decode = Inr\<rparr>"

section \<open>Observations on traces\<close>

text \<open>The paths of the guard invocations of a trace, in order.\<close>

fun guardCalls :: "event list \<Rightarrow> string list" where
  "guardCalls [] = []"
| "guardCalls (Guard p # evs) = p # guardCalls evs"
| "guardCalls (ev # evs) = guardCalls evs"

fun isNative :: "event \<Rightarrow> bool" where
  "isNative (Native c) = True"
| "isNative ev = False"

fun isGuard :: "event \<Rightarrow> bool" where
  "isGuard (Guard p) = True"
| "isGuard ev = False"

text \<open>The events that a computation adds to the trace of the state it starts in.\<close>

definition events :: "'a promise \<Rightarrow> state \<Rightarrow> event list" where
  "events m s = drop (length (trace s)) (trace (snd (m s)))"

text \<open>No primitive of the native module is called before the first guard invocation.\<close>

definition guardFirst :: "event list \<Rightarrow> bool" where
  "guardFirst evs = (\<not> list_ex isNative (takeWhile (\<lambda>ev. \<not> isGuard ev) evs))"

definition guardedOnce :: "string \<Rightarrow> event list \<Rightarrow> bool" where
  "guardedOnce p evs = (guardCalls evs = [p] \<and> guardFirst evs)"

text \<open>The call of the directory-creation primitive that the guard makes for a path.\<close>

definition guardNative :: "config \<Rightarrow> string \<Rightarrow> event list" where
  "guardNative cfg p =
     (case rootDir cfg p of
        Inl e \<Rightarrow> []
      | Inr root \<Rightarrow>
          (case processDirPath cfg (NSCachesDirectoryPath cfg) of
             Inl e \<Rightarrow> []
           | Inr caches \<Rightarrow> [Native (Mkdir root (root = Some caches))]))"

text \<open>The registrations that one listener causes: one on every available emitter.\<close>

definition registrations :: "config \<Rightarrow> string \<Rightarrow> callback \<Rightarrow> event list" where
  "registrations cfg ev cb =
     (if nativeAppAddListener cfg then [AddListener NativeAppEventEmitter ev cb] else []) @
     (if deviceAddListener cfg then [AddListener DeviceEventEmitter ev cb] else [])"

text \<open>The handles obtained and the handles released in a trace.\<close>

fun attached :: "event list \<Rightarrow> subscription list" where
  "attached [] = []"
| "attached (AddListener em ev cb # evs) = Subscription em ev cb # attached evs"
| "attached (e # evs) = attached evs"

fun released :: "event list \<Rightarrow> subscription list" where
  "released [] = []"
| "released (Remove h # evs) = h # released evs"
| "released (e # evs) = released evs"

section \<open>Derived notions used in the statements\<close>

text \<open>
  Section 4.2 of the specification, in its words: the sandboxed root of a base directory
  appends the application-scoped suffix, with a \<open>/\<close> in between unless the base already
  ends in one; the configured roots are those of caches, documents and, on iOS only,
  library, in this order.
\<close>

definition sandboxedRoot :: "string \<Rightarrow> string \<Rightarrow> string" where
  "sandboxedRoot a base =
     base @ (if base \<noteq> [] \<and> last base = CHR ''/'' then [] else ''/'') @ ''siphon-data-'' @ a"

definition configuredRoots :: "config \<Rightarrow> string \<Rightarrow> string list" where
  "configuredRoots cfg a =
     map (sandboxedRoot a)
       ([NSCachesDirectoryPath cfg, NSDocumentDirectoryPath cfg] @
        (if PlatformOS cfg = ''ios'' then [NSLibraryDirectoryPath cfg] else []))"

text \<open>The state after the guard has run on a path: its two events are in the trace.\<close>

definition afterGuard :: "config \<Rightarrow> string \<Rightarrow> state \<Rightarrow> state" where
  "afterGuard cfg p s = s\<lparr>trace := trace s @ Guard p # guardNative cfg p\<rparr>"

text \<open>
  The synchronous first part of \<^verbatim>\<open>downloadFile\<close> (lines 292--312), described directly:
  the listener used for the begin event, the registrations made, the handles that the
  two variables hold when the download starts, the events of releasing them, and the
  state in which the guard is entered.
\<close>

definition beginOrDefault :: "callback option \<Rightarrow> callback" where
  "beginOrDefault begin0 = (case begin0 of None \<Rightarrow> DefaultBeginLog | Some b \<Rightarrow> b)"

definition downloadRegistrations :: "config \<Rightarrow> nat \<Rightarrow> callback option \<Rightarrow> callback option \<Rightarrow> event list" where
  "downloadRegistrations cfg j begin0 progress =
     registrations cfg (''DownloadBegin-'' @ showNat j) (beginOrDefault begin0) @
     (case progress of
        None \<Rightarrow> []
      | Some p \<Rightarrow> registrations cfg (''DownloadProgress-'' @ showNat j) p)"

definition heldHandles ::
  "config \<Rightarrow> nat \<Rightarrow> callback option \<Rightarrow> callback option \<Rightarrow> subscription option \<times> subscription option" where
  "heldHandles cfg j begin0 progress =
     (let ev = (case progress of None \<Rightarrow> ''DownloadBegin-'' @ showNat j
                               | Some p \<Rightarrow> ''DownloadProgress-'' @ showNat j);
          cb = (case progress of None \<Rightarrow> beginOrDefault begin0 | Some p \<Rightarrow> p)
      in (if nativeAppAddListener cfg then Some (Subscription NativeAppEventEmitter ev cb) else None,
          if deviceAddListener cfg then Some (Subscription DeviceEventEmitter ev cb) else None))"

definition releases :: "subscription option \<times> subscription option \<Rightarrow> event list" where
  "releases subs =
     (case fst subs of None \<Rightarrow> [] | Some h \<Rightarrow> [Remove h]) @
     (case snd subs of None \<Rightarrow> [] | Some h \<Rightarrow> [Remove h])"

definition afterSetup :: "config \<Rightarrow> callback option \<Rightarrow> callback option \<Rightarrow> state \<Rightarrow> state" where
  "afterSetup cfg begin0 progress s =
     s\<lparr>jobId := fst (getJobId s),
       trace := trace s @ downloadRegistrations cfg (fst (getJobId s)) begin0 progress\<rparr>"

section \<open>Properties of the string primitives and of the Path Normalizer\<close>

lemma splitStr_nonempty: "splitStr sep s \<noteq> []"
  by (induction sep s rule: splitStr.induct) (auto split: list.splits)

lemma joinStr_Cons: "xs \<noteq> [] \<Longrightarrow> joinStr sep (x # xs) = x @ sep @ joinStr sep xs"
  by (cases xs) auto

lemma joinStr_splitStr: "joinStr sep (splitStr sep s) = s"
proof (induction sep s rule: splitStr.induct)
  case (1 sep)
  then show ?case by simp
next
  case (2 sep c cs)
  show ?case
  proof (cases "sep \<noteq> [] \<and> prefix sep (c # cs)")
    case True
    then have r: "c # cs = sep @ drop (length sep) (c # cs)"
      by (auto simp: prefix_def)
    from True 2 have ih: "joinStr sep (splitStr sep (drop (length sep) (c # cs)))
        = drop (length sep) (c # cs)" by blast
    from True have "splitStr sep (c # cs) = [] # splitStr sep (drop (length sep) (c # cs))"
      by simp
    then have "joinStr sep (splitStr sep (c # cs))
        = sep @ joinStr sep (splitStr sep (drop (length sep) (c # cs)))"
      by (simp add: joinStr_Cons splitStr_nonempty)
    with ih r show ?thesis by simp
  next
    case False
    with 2 have ih: "joinStr sep (splitStr sep cs) = cs" by blast
    obtain x xs where sp: "splitStr sep cs = x # xs"
      using splitStr_nonempty [of sep cs] by (cases "splitStr sep cs") auto
    show ?thesis
    proof (cases xs)
      case Nil
      with sp ih False show ?thesis by auto
    next
      case (Cons y ys)
      with sp ih False show ?thesis by auto
    qed
  qed
qed

lemma indexOf_ge: "- 1 \<le> indexOf sep s"
  by (induction s) (auto simp: Let_def)

lemma indexOf_sublist: "(indexOf sep s > - 1) = sublist sep s"
proof (induction s)
  case Nil
  then show ?case by auto
next
  case (Cons c cs)
  have "- 1 \<le> indexOf sep cs" by (rule indexOf_ge)
  with Cons show ?case
    by (auto simp: Let_def sublist_Cons_right)
qed

lemma splitStr_length_sublist:
  "sep \<noteq> [] \<Longrightarrow> (2 \<le> length (splitStr sep s)) = sublist sep s"
proof (induction sep s rule: splitStr.induct)
  case (1 sep)
  then show ?case by simp
next
  case (2 sep c cs)
  show ?case
  proof (cases "prefix sep (c # cs)")
    case True
    with 2 splitStr_nonempty [of sep "drop (length sep) (c # cs)"] show ?thesis
      by (cases "splitStr sep (drop (length sep) (c # cs))") auto
  next
    case False
    with 2 have ih: "(2 \<le> length (splitStr sep cs)) = sublist sep cs" by blast
    from False ih show ?thesis
      by (auto simp: sublist_Cons_right split: list.splits)
  qed
qed

lemma splitStr_single: "sep \<noteq> [] \<Longrightarrow> \<not> sublist sep s \<Longrightarrow> splitStr sep s = [s]"
proof -
  assume a: "sep \<noteq> []" "\<not> sublist sep s"
  then have "\<not> 2 \<le> length (splitStr sep s)" by (simp add: splitStr_length_sublist)
  then obtain x where x: "splitStr sep s = [x]"
    using splitStr_nonempty [of sep s]
    by (cases "splitStr sep s"; cases "tl (splitStr sep s)") auto
  with joinStr_splitStr [of sep s] show ?thesis by simp
qed


lemma splitStr_hd_prefix: "prefix (hd (splitStr sep s)) s"
proof -
  obtain h r where hr: "splitStr sep s = h # r"
    using splitStr_nonempty [of sep s] by (cases "splitStr sep s") auto
  have "joinStr sep (h # r) = s" using joinStr_splitStr [of sep s] hr by simp
  then have "prefix h s" by (cases r) (auto simp: prefix_def)
  with hr show ?thesis by simp
qed

lemma splitStr_elems_no_sep:
  "sep \<noteq> [] \<Longrightarrow> e \<in> set (splitStr sep s) \<Longrightarrow> \<not> sublist sep e"
proof (induction sep s arbitrary: e rule: splitStr.induct)
  case (1 sep)
  then show ?case by simp
next
  case (2 sep c cs)
  show ?case
  proof (cases "prefix sep (c # cs)")
    case True
    with 2 show ?thesis by auto
  next
    case False
    obtain h r where hr: "splitStr sep cs = h # r"
      using splitStr_nonempty [of sep cs] by (cases "splitStr sep cs") auto
    from False hr "2.prems" have e: "e = c # h \<or> e \<in> set r" by auto
    from False 2 hr have ih: "\<not> sublist sep h" "\<And>x. x \<in> set r \<Longrightarrow> \<not> sublist sep x"
      by auto
    have "prefix h cs" using splitStr_hd_prefix [of sep cs] hr by simp
    then have "prefix (c # h) (c # cs)" by simp
    with False have "\<not> prefix sep (c # h)"
      using prefix_order.trans by blast
    with ih(1) have "\<not> sublist sep (c # h)" by (simp add: sublist_Cons_right)
    with e ih(2) show ?thesis by blast
  qed
qed

lemma splitStr_char_append:
  "splitStr [c] (a @ c # b) = splitStr [c] a @ splitStr [c] b"
proof (induction a)
  case Nil
  then show ?case by simp
next
  case (Cons x a)
  obtain h r where hr: "splitStr [c] a = h # r"
    using splitStr_nonempty [of "[c]" a] by (cases "splitStr [c] a") auto
  with Cons show ?case by auto
qed

lemma splitStr_scheme_append:
  "\<not> sublist ''://'' a \<Longrightarrow> splitStr ''://'' (a @ ''://'' @ x) = a # splitStr ''://'' x"
proof (induction a)
  case Nil
  then show ?case by simp
next
  case (Cons c a)
  from Cons.prems have na: "\<not> sublist ''://'' a" and np: "\<not> prefix ''://'' (c # a)"
    by (simp_all add: sublist_Cons_right)
  from np have "\<not> prefix ''://'' (c # a @ ''://'' @ x)"
    by (cases a; cases "tl a") auto
  with Cons.IH [OF na] show ?case by simp
qed


lemma spec_step_simps:
  "spec_step acc ''.'' = acc"
  "spec_step acc ''..'' = butlast acc"
  "p \<noteq> ''.'' \<Longrightarrow> p \<noteq> ''..'' \<Longrightarrow> spec_step acc p = acc @ [p]"
  by (simp_all add: spec_step_def)

lemma normLoop_foldl: "normLoop parts i acc = foldl spec_step acc (drop i parts)"
proof (induction parts i acc rule: normLoop.induct)
  case (1 parts i normParts)
  show ?case
  proof (cases "i < length parts")
    case True
    then have d: "drop i parts = parts ! i # drop (i + 1) parts"
      by (simp add: Cons_nth_drop_Suc)
    have step: "foldl spec_step normParts (drop i parts)
        = foldl spec_step (spec_step normParts (parts ! i)) (drop (i + 1) parts)"
      by (simp add: d)
    consider (dot) "parts ! i = ''.''" | (dotdot) "parts ! i = ''..''"
      | (other) "parts ! i \<noteq> ''.''" "parts ! i \<noteq> ''..''" by blast
    then show ?thesis
    proof cases
      case dot
      with True have "normLoop parts i normParts = normLoop parts (i + 1) normParts"
        by (subst normLoop.simps) simp
      also have "\<dots> = foldl spec_step normParts (drop (i + 1) parts)"
        using "1.IH"(1) [OF True refl] dot by simp
      finally show ?thesis using dot by (simp add: step spec_step_simps)
    next
      case dotdot
      with True have "normLoop parts i normParts = normLoop parts (i + 1) (butlast normParts)"
        by (subst normLoop.simps) simp
      also have "\<dots> = foldl spec_step (butlast normParts) (drop (i + 1) parts)"
        using "1.IH"(2) [OF True refl] dotdot by simp
      finally show ?thesis using dotdot by (simp add: step spec_step_simps)
    next
      case other
      with True have "normLoop parts i normParts = normLoop parts (i + 1) (normParts @ [parts ! i])"
        by (subst normLoop.simps) simp
      also have "\<dots> = foldl spec_step (normParts @ [parts ! i]) (drop (i + 1) parts)"
        using "1.IH"(3) [OF True refl] other by simp
      finally show ?thesis using other by (simp add: step spec_step_simps)
    qed
  next
    case False
    then show ?thesis by (subst normLoop.simps) simp
  qed
qed

lemma foldl_spec_step_dotfree: "dotfree xs \<Longrightarrow> foldl spec_step acc xs = acc @ xs"
  by (induction xs arbitrary: acc) (auto simp: spec_step_def dotfree_def)

lemma set_butlast_subset: "set (butlast xs) \<subseteq> set xs"
  by (induction xs) auto

lemma foldl_spec_step_set:
  "set (foldl spec_step acc xs) \<subseteq> set acc \<union> (set xs - {''.'', ''..''})"
proof (induction xs arbitrary: acc)
  case Nil
  then show ?case by simp
next
  case (Cons x xs)
  have "set (spec_step acc x) \<subseteq> set acc \<union> ({x} - {''.'', ''..''})"
    using set_butlast_subset [of acc] by (auto simp: spec_step_def)
  with Cons [of "spec_step acc x"] show ?case by auto
qed

lemma splitStr_joinStr_slash:
  "segs \<noteq> [] \<Longrightarrow> (\<And>e. e \<in> set segs \<Longrightarrow> CHR ''/'' \<notin> set e)
     \<Longrightarrow> splitStr ''/'' (joinStr ''/'' segs) = segs"
proof (induction segs)
  case Nil
  then show ?case by simp
next
  case (Cons x segs)
  from Cons.prems(2) [of x] have "CHR ''/'' \<notin> set x" by simp
  then have "\<not> sublist ''/'' x" by (auto simp: sublist_def)
  then have x: "splitStr ''/'' x = [x]" by (simp add: splitStr_single)
  show ?case
  proof (cases segs)
    case Nil
    with x show ?thesis by simp
  next
    case (Cons y ys)
    with Cons.IH Cons.prems have "splitStr ''/'' (joinStr ''/'' segs) = segs" by auto
    with x Cons splitStr_char_append [of "CHR ''/''" x "joinStr ''/'' segs"]
    show ?thesis by simp
  qed
qed


lemma splitStr_slash_elems: "e \<in> set (splitStr ''/'' s) \<Longrightarrow> CHR ''/'' \<notin> set e"
proof
  assume e: "e \<in> set (splitStr ''/'' s)" and "CHR ''/'' \<in> set e"
  then obtain ps ss where "e = ps @ CHR ''/'' # ss" by (auto simp: in_set_conv_decomp)
  then have "sublist ''/'' e" by (auto simp: sublist_def)
  with splitStr_elems_no_sep [OF _ e] show False by simp
qed

lemma normalizePath_alt:
  "normalizePath p = (case schemeSplit p of (scheme, r) \<Rightarrow>
      if truthy scheme then the scheme @ ''://'' @ normBody r else normBody r)"
  by (simp add: normalizePath_def normBody_def Let_def split: prod.splits)

lemma normBody_fixed:
  assumes "dotfree (splitStr ''/'' x)"
  shows "normBody x = x"
proof -
  have "normLoop (splitStr ''/'' x) 0 [] = splitStr ''/'' x"
    using assms by (simp add: normLoop_foldl foldl_spec_step_dotfree)
  then show ?thesis by (simp add: normBody_def joinStr_splitStr)
qed

lemma normBody_dotfree: "dotfree (splitStr ''/'' (normBody r))"
proof -
  define segs where "segs = normLoop (splitStr ''/'' r) 0 []"
  have sub: "set segs \<subseteq> set (splitStr ''/'' r) - {''.'', ''..''}"
    using foldl_spec_step_set [of "[]" "splitStr ''/'' r"]
    by (simp add: segs_def normLoop_foldl)
  show ?thesis
  proof (cases "segs = []")
    case True
    then show ?thesis by (simp add: normBody_def segs_def [symmetric] dotfree_def)
  next
    case False
    have "\<And>e. e \<in> set segs \<Longrightarrow> CHR ''/'' \<notin> set e"
      using sub splitStr_slash_elems by blast
    with False have "splitStr ''/'' (joinStr ''/'' segs) = segs"
      by (rule splitStr_joinStr_slash)
    with sub show ?thesis by (auto simp: normBody_def segs_def [symmetric] dotfree_def)
  qed
qed

lemma schemeSplit_none: "\<not> sublist ''://'' x \<Longrightarrow> schemeSplit x = (None, x)"
  using indexOf_sublist [of "''://''" x] by (simp add: schemeSplit_def)

lemma schemeSplit_first:
  assumes "\<not> sublist ''://'' a"
  shows "schemeSplit (a @ ''://'' @ x) = (Some a, hd (splitStr ''://'' x))"
proof -
  have "sublist ''://'' (a @ ''://'' @ x)" by (rule sublist_appendI)
  then have i: "indexOf ''://'' (a @ ''://'' @ x) > - 1" by (simp only: indexOf_sublist)
  have s: "splitStr ''://'' (a @ ''://'' @ x) = a # splitStr ''://'' x"
    using assms by (rule splitStr_scheme_append)
  obtain h r where hr: "splitStr ''://'' x = h # r"
    using splitStr_nonempty [of "''://''" x] by (cases "splitStr ''://'' x") auto
  show ?thesis
    unfolding schemeSplit_def using i by (simp only: s hr Let_def if_True nth_Cons_0 list.sel) simp
qed

lemma normalizePath_sealed:
  assumes a: "a \<noteq> []" "\<not> sublist ''://'' a" and b: "\<not> sublist ''://'' b"
    and d: "dotfree (splitStr ''/'' b)"
  shows "normalizePath (a @ ''://'' @ b) = a @ ''://'' @ b"
proof -
  have "splitStr ''://'' b = [b]" using b by (simp add: splitStr_single)
  then have "schemeSplit (a @ ''://'' @ b) = (Some a, b)"
    using schemeSplit_first [OF a(2), of b] by simp
  with a(1) normBody_fixed [OF d] show ?thesis by (simp add: normalizePath_alt)
qed

lemma normalizePath_plain:
  assumes "\<not> sublist ''://'' x" "dotfree (splitStr ''/'' x)"
  shows "normalizePath x = x"
  using assms by (simp add: normalizePath_alt schemeSplit_none normBody_fixed)

lemma dotfree_after_scheme:
  assumes "dotfree (splitStr ''/'' (a @ ''://'' @ b))"
  shows "dotfree (splitStr ''/'' b)"
proof -
  have "a @ ''://'' @ b = (a @ '':'') @ CHR ''/'' # ([] @ CHR ''/'' # b)" by simp
  then have "splitStr ''/'' (a @ ''://'' @ b)
      = splitStr ''/'' (a @ '':'') @ splitStr ''/'' [] @ splitStr ''/'' b"
    by (simp only: splitStr_char_append)
  with assms show ?thesis by (auto simp: dotfree_def)
qed

lemma schemeSplit_cases:
  obtains (none) "schemeSplit p = (None, p)" "\<not> sublist ''://'' p"
  | (some) s r where "schemeSplit p = (Some s, r)" "\<not> sublist ''://'' s"
proof (cases "sublist ''://'' p")
  case False
  then show ?thesis using none schemeSplit_none by blast
next
  case True
  then have i: "indexOf ''://'' p > - 1" by (simp only: indexOf_sublist)
  have "2 \<le> length (splitStr ''://'' p)"
    using True by (simp add: splitStr_length_sublist)
  then obtain s r rest where sp: "splitStr ''://'' p = s # r # rest"
    by (auto simp: numeral_2_eq_2 Suc_le_length_iff)
  have "\<not> sublist ''://'' s"
    by (rule splitStr_elems_no_sep [of _ _ p]) (simp_all add: sp)
  moreover have "schemeSplit p = (Some s, r)"
    using i by (simp add: schemeSplit_def sp)
  ultimately show ?thesis using some by blast
qed

text \<open>Both indices read by \<open>schemeSplit\<close> exist whenever the path contains \<^verbatim>\<open>'://'\<close>.\<close>

lemma splitStr_two: "indexOf ''://'' path > - 1 \<Longrightarrow> 2 \<le> length (splitStr ''://'' path)"
  by (simp add: indexOf_sublist splitStr_length_sublist)

text \<open>
  Claim C7. Normalization follows the left fold over the \<open>/\<close>-separated segments of the
  schemeless rest: the loop of the source computes \<open>foldl spec_step []\<close>, where
  \<open>spec_step\<close> drops \<open>.\<close>, pops on \<open>..\<close> (nothing on the empty accumulator) and keeps any
  other segment in order; the kept segments are joined with \<open>/\<close> behind the scheme. In
  particular \<open>a/b/./c/../d\<close> becomes \<open>a/b/d\<close> and \<open>scheme://x/../y\<close> becomes \<open>scheme://y\<close>.
\<close>

theorem normalizePath_left_fold:
  "normalizePath p =
     (case schemeSplit p of (scheme, rest) \<Rightarrow>
        (if truthy scheme then the scheme @ ''://'' else [])
          @ joinStr ''/'' (foldl spec_step [] (splitStr ''/'' rest)))
   \<and> normalizePath ''a/b/./c/../d'' = ''a/b/d''
   \<and> normalizePath ''scheme://x/../y'' = ''scheme://y''"
proof -
  have "normalizePath p =
     (case schemeSplit p of (scheme, rest) \<Rightarrow>
        (if truthy scheme then the scheme @ ''://'' else [])
          @ joinStr ''/'' (foldl spec_step [] (splitStr ''/'' rest)))"
    by (simp add: normalizePath_def normLoop_foldl Let_def split: prod.splits)
  moreover have "normalizePath ''a/b/./c/../d'' = ''a/b/d''" by code_simp
  moreover have "normalizePath ''scheme://x/../y'' = ''scheme://y''" by code_simp
  ultimately show ?thesis by blast
qed

text \<open>Every path that contains \<^verbatim>\<open>'://'\<close> more than once has the form used in the next theorem.\<close>

lemma two_schemes_decompose:
  assumes "splitStr ''://'' p = a # b # c # rest"
  shows "p = a @ ''://'' @ b @ ''://'' @ joinStr ''://'' (c # rest)
       \<and> \<not> sublist ''://'' a \<and> \<not> sublist ''://'' b"
proof -
  have "p = joinStr ''://'' (a # b # c # rest)"
    using joinStr_splitStr [of "''://''" p] assms by simp
  then have "p = a @ ''://'' @ b @ ''://'' @ joinStr ''://'' (c # rest)" by simp
  moreover have "\<not> sublist ''://'' a"
    by (rule splitStr_elems_no_sep [of _ _ p]) (simp_all add: assms)
  moreover have "\<not> sublist ''://'' b"
    by (rule splitStr_elems_no_sep [of _ _ p]) (simp_all add: assms)
  ultimately show ?thesis by blast
qed

text \<open>
  Claim C10. When the text \<open>a\<close> before the first \<^verbatim>\<open>'://'\<close> and the text \<open>b\<close> between the first
  and the second \<^verbatim>\<open>'://'\<close> contain no separator themselves, the path
  \<open>a://b://c\<close> normalizes like \<open>a://b\<close>: \<open>b\<close> alone is the path body, and the second
  separator with everything behind it is discarded.
\<close>

theorem normalizePath_second_scheme_discarded:
  assumes "\<not> sublist ''://'' a" and "\<not> sublist ''://'' b"
  shows "normalizePath (a @ ''://'' @ b @ ''://'' @ c) = normalizePath (a @ ''://'' @ b)
       \<and> normalizePath (a @ ''://'' @ b @ ''://'' @ c)
           = (if a = [] then [] else a @ ''://'')
               @ joinStr ''/'' (normLoop (splitStr ''/'' b) 0 [])"
proof -
  have first: "splitStr ''://'' (b @ ''://'' @ c) = b # splitStr ''://'' c"
    using assms(2) by (rule splitStr_scheme_append)
  have long: "schemeSplit (a @ ''://'' @ b @ ''://'' @ c) = (Some a, b)"
    using schemeSplit_first [OF assms(1), of "b @ ''://'' @ c"] first by simp
  have "splitStr ''://'' b = [b]" using assms(2) by (simp add: splitStr_single)
  then have short: "schemeSplit (a @ ''://'' @ b) = (Some a, b)"
    using schemeSplit_first [OF assms(1), of b] by simp
  from long short show ?thesis
    by (simp add: normalizePath_alt normBody_def)
qed

theorem normalizePath_second_scheme_discarded_witness:
  "\<not> sublist ''://'' ''a'' \<and> \<not> sublist ''://'' ''b''
   \<and> normalizePath ''a://b://c'' = normalizePath ''a://b''
   \<and> normalizePath ''a://b://c'' = ''a://b''"
proof -
  have a: "\<not> sublist ''://'' ''a''" by code_simp
  have b: "\<not> sublist ''://'' ''b''" by code_simp
  have e: "joinStr ''/'' (normLoop (splitStr ''/'' ''b'') 0 []) = ''b''" by code_simp
  note t = normalizePath_second_scheme_discarded [OF a b, of "''c''", unfolded e]
  from t [THEN conjunct1] have t1: "normalizePath ''a://b://c'' = normalizePath ''a://b''"
    by simp
  from t [THEN conjunct2] have t2: "normalizePath ''a://b://c'' = ''a://b''"
    by simp
  from a b t1 t2 show ?thesis by blast
qed

text \<open>
  Claim C6, as stated, fails: normalization is not idempotent on every path. The
  segments \<open>:\<close> and the empty segment of \<open>:/.//a\<close> are joined to \<open>://a\<close>, which a second
  normalization reads as an empty scheme before the body \<open>a\<close>.
\<close>

theorem normalizePath_not_idempotent:
  "normalizePath (normalizePath '':/.//a'') \<noteq> normalizePath '':/.//a''"
  by code_simp

text \<open>
  Claim C6, amended. For every path whose normalized form does not begin with \<^verbatim>\<open>'://'\<close>
  and contains \<^verbatim>\<open>'://'\<close> at most once (it splits at \<^verbatim>\<open>'://'\<close> into at most two pieces),
  normalizing the normalized form gives the same string.
\<close>

theorem normalizePath_idempotent_amended:
  assumes np: "\<not> prefix ''://'' (normalizePath p)"
    and len: "length (splitStr ''://'' (normalizePath p)) \<le> 2"
  shows "normalizePath (normalizePath p) = normalizePath p"
proof -
  define q where "q = normalizePath p"
  have once: "normalizePath x = x"
    if x: "dotfree (splitStr ''/'' x)" "\<not> prefix ''://'' x" "length (splitStr ''://'' x) \<le> 2"
    for x
  proof (cases "sublist ''://'' x")
    case False
    then show ?thesis using x(1) by (rule normalizePath_plain)
  next
    case True
    then have "2 \<le> length (splitStr ''://'' x)" by (simp add: splitStr_length_sublist)
    with x(3) have "length (splitStr ''://'' x) = Suc (Suc 0)" by simp
    then obtain a b where ab: "splitStr ''://'' x = [a, b]"
      by (auto simp: length_Suc_conv)
    have xe: "x = a @ ''://'' @ b" using joinStr_splitStr [of "''://''" x] ab by simp
    have na: "\<not> sublist ''://'' a" and nb: "\<not> sublist ''://'' b"
      by (rule splitStr_elems_no_sep [of _ _ x]; simp add: ab)+
    from x(2) xe have ne: "a \<noteq> []" by auto
    have db: "dotfree (splitStr ''/'' b)" using x(1) xe dotfree_after_scheme by blast
    show ?thesis unfolding xe by (rule normalizePath_sealed [OF ne na nb db])
  qed
  show ?thesis
  proof (cases p rule: schemeSplit_cases)
    case none
    then have "normalizePath p = normBody p" by (simp add: normalizePath_alt)
    with normBody_dotfree [of p] np len once show ?thesis by simp
  next
    case (some s r)
    show ?thesis
    proof (cases "s = []")
      case True
      with some have "normalizePath p = normBody r" by (simp add: normalizePath_alt)
      with normBody_dotfree [of r] np len once show ?thesis by simp
    next
      case False
      with some have e: "normalizePath p = s @ ''://'' @ normBody r"
        by (simp add: normalizePath_alt)
      have "splitStr ''://'' (normalizePath p) = s # splitStr ''://'' (normBody r)"
        unfolding e using some(2) by (rule splitStr_scheme_append)
      with len have "\<not> 2 \<le> length (splitStr ''://'' (normBody r))" by simp
      then have "\<not> sublist ''://'' (normBody r)" by (simp add: splitStr_length_sublist)
      then show ?thesis
        unfolding e by (rule normalizePath_sealed [OF False some(2) _ normBody_dotfree])
    qed
  qed
qed

theorem normalizePath_idempotent_amended_witness:
  "\<not> prefix ''://'' (normalizePath ''scheme://x/../y'')
   \<and> length (splitStr ''://'' (normalizePath ''scheme://x/../y'')) \<le> 2
   \<and> normalizePath (normalizePath ''scheme://x/../y'') = normalizePath ''scheme://x/../y''"
proof -
  have n: "normalizePath ''scheme://x/../y'' = ''scheme://y''" by code_simp
  have h1: "\<not> prefix ''://'' (normalizePath ''scheme://x/../y'')"
    unfolding n by code_simp
  have h2: "length (splitStr ''://'' (normalizePath ''scheme://x/../y'')) \<le> 2"
    unfolding n by code_simp
  show ?thesis
    using h1 h2 normalizePath_idempotent_amended [OF h1 h2] by simp
qed

section \<open>Properties of the Root Policy\<close>

lemma processDirPath_ok:
  "appID cfg = Some a \<Longrightarrow> a \<noteq> [] \<Longrightarrow> processDirPath cfg base = Inr (sandboxedRoot a base)"
  by (cases a) (auto simp: processDirPath_def sandboxedRoot_def Let_def)

lemma validDirs_ok:
  "appID cfg = Some a \<Longrightarrow> a \<noteq> [] \<Longrightarrow> validDirs cfg = Inr (configuredRoots cfg a)"
  by (simp add: validDirs_def processDirPath_ok configuredRoots_def)

lemma take_is_prefix_iff: "(take (length d) path = d) = prefix d path"
  by (auto simp: prefix_def) (metis append_take_drop_id)

lemma findRoot_find: "findRoot path dirs = find (\<lambda>d. prefix d path) dirs"
  by (induction dirs) (auto simp: take_is_prefix_iff)

lemma find_first:
  "R \<in> set xs \<Longrightarrow> P R \<Longrightarrow> \<forall>R' \<in> set (takeWhile (\<lambda>x. x \<noteq> R) xs). \<not> P R'
     \<Longrightarrow> find P xs = Some R"
  by (induction xs) (auto split: if_splits)

lemma find_none: "\<forall>R \<in> set xs. \<not> P R \<Longrightarrow> find P xs = None"
  by (induction xs) auto

text \<open>
  Claim C8, amended. With the application identifier set, \<open>rootDir\<close> (the specification's
  \<open>ownerRoot\<close>) returns the first configured root, in the order caches, documents, then
  (on iOS only) library, that is a literal string prefix of the normalized path. So it
  returns a configured root \<open>R\<close> that is a prefix of the normalized path whenever no root
  before \<open>R\<close> in that order is a prefix as well, and it returns \<^verbatim>\<open>null\<close> when no configured
  root is a prefix.
\<close>

theorem rootDir_first_match:
  assumes "appID cfg = Some a" and "a \<noteq> []"
  shows "rootDir cfg p = Inr (find (\<lambda>R. prefix R (normalizePath p)) (configuredRoots cfg a))
    \<and> (\<forall>R \<in> set (configuredRoots cfg a).
          prefix R (normalizePath p)
          \<and> (\<forall>R' \<in> set (takeWhile (\<lambda>x. x \<noteq> R) (configuredRoots cfg a)).
                \<not> prefix R' (normalizePath p))
          \<longrightarrow> rootDir cfg p = Inr (Some R))
    \<and> ((\<forall>R \<in> set (configuredRoots cfg a). \<not> prefix R (normalizePath p))
          \<longrightarrow> rootDir cfg p = Inr None)"
proof -
  have r: "rootDir cfg p = Inr (find (\<lambda>R. prefix R (normalizePath p)) (configuredRoots cfg a))"
    using assms by (simp add: rootDir_def validDirs_ok findRoot_find)
  show ?thesis
    unfolding r using find_first [of _ "configuredRoots cfg a" "\<lambda>R. prefix R (normalizePath p)"]
      find_none [of "configuredRoots cfg a" "\<lambda>R. prefix R (normalizePath p)"]
    by blast
qed

theorem rootDir_first_match_witness:
  "appID iosConfig = Some ''demo'' \<and> ''demo'' \<noteq> []
   \<and> rootDir iosConfig ''/app/Library/siphon-data-demo/x/../y''
       = Inr (Some ''/app/Library/siphon-data-demo'')
   \<and> rootDir iosConfig ''/tmp/other/file.txt'' = Inr None"
proof -
  have a: "appID iosConfig = Some ''demo''" by (simp add: iosConfig_def)
  have b: "''demo'' \<noteq> []" by simp
  have f1: "find (\<lambda>R. prefix R (normalizePath ''/app/Library/siphon-data-demo/x/../y''))
              (configuredRoots iosConfig ''demo'') = Some ''/app/Library/siphon-data-demo''"
    by code_simp
  have f2: "find (\<lambda>R. prefix R (normalizePath ''/tmp/other/file.txt''))
              (configuredRoots iosConfig ''demo'') = None"
    by code_simp
  from rootDir_first_match [OF a b, of "''/app/Library/siphon-data-demo/x/../y''"] f1
    rootDir_first_match [OF a b, of "''/tmp/other/file.txt''"] f2 a b
  show ?thesis by simp
qed

text \<open>
  Claim C8, as stated, fails where one configured root is a prefix of another: for the
  documents root \<open>/a/siphon-data-x/siphon-data-x\<close>, a prefix of the normalized path,
  \<open>rootDir\<close> returns the caches root \<open>/a/siphon-data-x\<close>, which comes first.
\<close>

theorem rootDir_overlapping_roots:
  "validDirs nestedConfig = Inr [''/a/siphon-data-x'', ''/a/siphon-data-x/siphon-data-x'']
   \<and> prefix ''/a/siphon-data-x/siphon-data-x'' (normalizePath ''/a/siphon-data-x/siphon-data-x/f'')
   \<and> rootDir nestedConfig ''/a/siphon-data-x/siphon-data-x/f'' = Inr (Some ''/a/siphon-data-x'')
   \<and> rootDir nestedConfig ''/a/siphon-data-x/siphon-data-x/f''
        \<noteq> Inr (Some ''/a/siphon-data-x/siphon-data-x'')"
  by code_simp

section \<open>Properties of the Job Registry counter\<close>

text \<open>
  The same increment with the comparison made on integers, for evaluation: integer
  numerals are binary, so \<open>2 ^ 53\<close> is computed in a few steps.
\<close>

lemma doubleSucc_int [code]: "doubleSucc n = (if int n < 2 ^ 53 then n + 1 else n)"
proof -
  have "(int n < 2 ^ 53) = (n < 2 ^ 53)"
    by (metis of_nat_less_iff of_nat_numeral of_nat_power)
  then show ?thesis by (simp add: doubleSucc_def jobIdLimit_def)
qed

lemma getJobId_eq:
  "getJobId s = (doubleSucc (jobId s), s\<lparr>jobId := doubleSucc (jobId s)\<rparr>)"
  by (simp add: getJobId_def Let_def)

lemma getJobIds_Suc:
  "getJobIds (Suc n) s =
     (doubleSucc (jobId s) # fst (getJobIds n (s\<lparr>jobId := doubleSucc (jobId s)\<rparr>)),
      snd (getJobIds n (s\<lparr>jobId := doubleSucc (jobId s)\<rparr>)))"
  by (simp add: getJobIds.simps(2) getJobId_eq split: prod.splits)

text \<open>The counter never leaves the range of the exact whole numbers.\<close>

lemma getJobId_range: "jobId s \<le> jobIdLimit \<Longrightarrow> jobId (snd (getJobId s)) \<le> jobIdLimit"
  by (simp add: getJobId_eq doubleSucc_def)

lemma length_getJobIds: "length (fst (getJobIds n s)) = n"
  by (induction n arbitrary: s) (simp_all add: getJobIds.simps(1) getJobIds_Suc)

text \<open>The identifier returned by the call number \<open>i\<close> (from 0): it is capped at the limit.\<close>

lemma getJobIds_nth:
  "jobId s \<le> jobIdLimit \<Longrightarrow> i < n
     \<Longrightarrow> fst (getJobIds n s) ! i = min (jobId s + i + 1) jobIdLimit"
proof (induction n arbitrary: s i)
  case 0
  then show ?case by simp
next
  case (Suc n)
  define s' where "s' = s\<lparr>jobId := doubleSucc (jobId s)\<rparr>"
  have j: "jobId s' = doubleSucc (jobId s)" by (simp add: s'_def)
  have r: "jobId s' \<le> jobIdLimit" using Suc.prems(1) by (simp add: j doubleSucc_def)
  show ?case
  proof (cases i)
    case 0
    with Suc.prems(1) show ?thesis
      by (simp add: getJobIds_Suc doubleSucc_def)
  next
    case (Suc k)
    with Suc.prems(2) have "k < n" by simp
    from Suc.IH [OF r this]
    have ih: "fst (getJobIds n s') ! k = min (jobId s' + k + 1) jobIdLimit" .
    have "fst (getJobIds (Suc n) s) ! i = fst (getJobIds n s') ! k"
      by (simp add: getJobIds_Suc s'_def Suc)
    also have "\<dots> = min (doubleSucc (jobId s) + k + 1) jobIdLimit"
      by (simp only: ih j)
    also have "\<dots> = min (jobId s + i + 1) jobIdLimit"
      using Suc.prems(1) Suc by (simp add: doubleSucc_def)
    finally show ?thesis .
  qed
qed

lemma getJobIds_props:
  "jobId s + n \<le> jobIdLimit \<Longrightarrow>
     length (fst (getJobIds n s)) = n
   \<and> sorted_wrt (<) (fst (getJobIds n s))
   \<and> distinct (fst (getJobIds n s))
   \<and> (\<forall>j \<in> set (fst (getJobIds n s)). jobId s < j \<and> j \<le> jobId (snd (getJobIds n s)))
   \<and> jobId (snd (getJobIds n s)) = jobId s + n"
proof (induction n arbitrary: s)
  case 0
  then show ?case by (simp add: getJobIds.simps(1))
next
  case (Suc n)
  define s' where "s' = s\<lparr>jobId := doubleSucc (jobId s)\<rparr>"
  from Suc.prems have d: "doubleSucc (jobId s) = jobId s + 1" by (simp add: doubleSucc_def)
  have step: "getJobIds (Suc n) s = ((jobId s + 1) # fst (getJobIds n s'), snd (getJobIds n s'))"
    by (simp add: getJobIds_Suc s'_def d)
  have j: "jobId s' = jobId s + 1" by (simp add: s'_def d)
  with Suc.prems have "jobId s' + n \<le> jobIdLimit" by simp
  from Suc.IH [OF this] j show ?case
    unfolding step by auto
qed

text \<open>
  Claim C9, as stated, fails at the end of the range of the counter. Three calls that
  start at \<open>2 ^ 53 - 1\<close> return \<open>2 ^ 53\<close> three times, and the first \<open>2 ^ 53 + 1\<close> calls of
  a process do not return pairwise distinct identifiers.
\<close>

theorem getJobId_repeats_at_limit:
  "fst (getJobIds 3 \<lparr>trace = [], jobId = 2 ^ 53 - 1\<rparr>) = [2 ^ 53, 2 ^ 53, 2 ^ 53]
   \<and> \<not> distinct (fst (getJobIds (2 ^ 53 + 1) initState))"
proof -
  have three: "fst (getJobIds 3 \<lparr>trace = [], jobId = 2 ^ 53 - 1\<rparr>) = [2 ^ 53, 2 ^ 53, 2 ^ 53]"
    by (simp add: numeral_3_eq_3 getJobIds.simps(1) getJobIds_Suc doubleSucc_def jobIdLimit_def
       )
  define xs where "xs = fst (getJobIds (jobIdLimit + 1) initState)"
  have pos: "0 < jobIdLimit" by (simp add: jobIdLimit_def)
  have len: "length xs = jobIdLimit + 1" by (simp only: xs_def length_getJobIds)
  have "xs ! (jobIdLimit - 1) = min (jobId initState + (jobIdLimit - 1) + 1) jobIdLimit"
    unfolding xs_def by (rule getJobIds_nth) (simp_all add: initState_def)
  then have a: "xs ! (jobIdLimit - 1) = jobIdLimit" using pos by (simp add: initState_def)
  have "xs ! jobIdLimit = min (jobId initState + jobIdLimit + 1) jobIdLimit"
    unfolding xs_def by (rule getJobIds_nth) (simp_all add: initState_def)
  then have b: "xs ! jobIdLimit = jobIdLimit" by (simp add: initState_def)
  have "\<not> distinct xs"
  proof
    assume "distinct xs"
    then have "xs ! (jobIdLimit - 1) \<noteq> xs ! jobIdLimit"
      using len pos by (simp add: nth_eq_iff_index_eq)
    with a b show False by simp
  qed
  then have "\<not> distinct (fst (getJobIds (2 ^ 53 + 1) initState))"
    unfolding xs_def jobIdLimit_def .
  with three show ?thesis by blast
qed

text \<open>
  Claim C9, amended. The counter starts at zero and is incremented before it is
  returned, so the first identifier is 1. Any \<open>n\<close> calls of \<open>getJobId\<close> that keep the
  counter within \<open>2 ^ 53\<close> (in particular the first \<open>2 ^ 53\<close> calls of a process) return
  \<open>n\<close> identifiers that are strictly increasing in the order of issue and pairwise
  distinct; each lies above the counter value before the calls (hence above every
  identifier issued earlier) and at most at the counter value after them.
\<close>

theorem getJobId_fresh_increasing:
  assumes "jobId s + n \<le> 2 ^ 53"
  shows "fst (getJobId initState) = 1
   \<and> length (fst (getJobIds n s)) = n
   \<and> sorted_wrt (<) (fst (getJobIds n s))
   \<and> distinct (fst (getJobIds n s))
   \<and> (\<forall>j \<in> set (fst (getJobIds n s)). jobId s < j \<and> j \<le> jobId (snd (getJobIds n s)))
   \<and> jobId (snd (getJobIds n s)) = jobId s + n"
proof -
  have "fst (getJobId initState) = 1"
    by (simp add: getJobId_eq doubleSucc_def jobIdLimit_def initState_def)
  moreover from assms have "jobId s + n \<le> jobIdLimit" by (simp add: jobIdLimit_def)
  ultimately show ?thesis using getJobIds_props [of s n] by blast
qed

theorem getJobId_fresh_increasing_witness:
  "jobId initState + 3 \<le> 2 ^ 53
   \<and> fst (getJobIds 3 initState) = [1, 2, 3]
   \<and> 2 \<in> set (fst (getJobIds 3 initState))
   \<and> jobId initState < 2
   \<and> sorted_wrt (<) (fst (getJobIds 3 initState))
   \<and> distinct (fst (getJobIds 3 initState))"
proof -
  have h: "jobId initState + 3 \<le> 2 ^ 53" by (simp add: initState_def)
  have e: "fst (getJobIds 3 initState) = [1, 2, 3]"
    by (simp add: numeral_3_eq_3 getJobIds.simps(1) getJobIds_Suc doubleSucc_def jobIdLimit_def initState_def
       )
  have m: "2 \<in> set (fst (getJobIds 3 initState))" unfolding e by simp
  from getJobId_fresh_increasing [OF h] m
  have "jobId initState < 2" by blast
  with h e m getJobId_fresh_increasing [OF h] show ?thesis by blast
qed

section \<open>Traces of the operations\<close>

lemma guardCalls_append: "guardCalls (xs @ ys) = guardCalls xs @ guardCalls ys"
  by (induction xs rule: guardCalls.induct) auto

lemma guardCalls_guardNative: "guardCalls (guardNative cfg p) = []"
  by (simp add: guardNative_def split: sum.splits)

lemma ensureValidRoot_state: "snd (ensureValidRoot cfg mgr p s) = afterGuard cfg p s"
  by (simp add: ensureValidRoot_def guardNative_def afterGuard_def Let_def emit_def callNative_def
      split: sum.splits option.splits prod.splits)

lemma events_eq: "snd (m s) = s\<lparr>trace := trace s @ evs\<rparr> \<Longrightarrow> events m s = evs"
  by (simp add: events_def)

lemma thenP_guard_state:
  "snd (thenP (ensureValidRoot cfg mgr p) k s) =
     (case fst (ensureValidRoot cfg mgr p s) of
        Inl e \<Rightarrow> afterGuard cfg p s
      | Inr u \<Rightarrow> snd (k u (afterGuard cfg p s)))"
  using ensureValidRoot_state [of cfg mgr p s]
  by (cases "ensureValidRoot cfg mgr p s") (auto simp: thenP_def split: sum.splits)

lemma catchConvert_state: "snd (catchConvert m s) = snd (m s)"
  by (cases "m s") (auto simp: catchConvert_def catchP_def reject_def split: sum.splits)

lemma callNative_state: "snd (callNative c a s) = emit (Native c) s"
  by (simp add: callNative_def)

lemma thenP_state_pure:
  "(\<And>x t. snd (k x t) = t) \<Longrightarrow> snd (thenP m k s) = snd (m s)"
  by (cases "m s") (auto simp: thenP_def split: sum.splits)

lemma resolve_state: "snd (resolve a s) = s" by (simp add: resolve_def)
lemma reject_state: "snd (reject e s) = s" by (simp add: reject_def)
lemma settle_state: "snd (settle r s) = s" by (simp add: settle_def)

lemma unlink_events:
  "events (unlink cfg mgr p) s =
     Guard p # guardNative cfg p @
       (case fst (ensureValidRoot cfg mgr p s) of Inl e \<Rightarrow> [] | Inr u \<Rightarrow> [Native (Unlink p)])"
  by (rule events_eq)
     (simp add: unlink_def thenP_guard_state catchConvert_state callNative_state emit_def
        afterGuard_def split: sum.splits)

lemma guardedOnce_shape:
  "guardCalls rest = [] \<Longrightarrow> guardedOnce p (Guard p # guardNative cfg p @ rest)"
  by (simp add: guardedOnce_def guardFirst_def guardCalls_append guardCalls_guardNative)

lemma guardCalls_case [simp]:
  "guardCalls (case r of Inl e \<Rightarrow> [] | Inr u \<Rightarrow> [Native c]) = []"
  by (cases r) auto

lemma unlink_guarded: "guardedOnce p (events (unlink cfg mgr p) s)"
  by (simp add: unlink_events guardedOnce_shape)


lemma guardCalls_case2 [simp]:
  "guardCalls (case r of Inl e \<Rightarrow> [] | Inr u \<Rightarrow> Native c # rest u) = 
   (case r of Inl e \<Rightarrow> [] | Inr u \<Rightarrow> guardCalls (rest u))"
  by (cases r) auto

lemma readDir_events:
  "events (readDir cfg mgr p) s =
     Guard p # guardNative cfg p @
       (case fst (ensureValidRoot cfg mgr p s) of Inl e \<Rightarrow> [] | Inr u \<Rightarrow> [Native (ReadDir p)])"
  by (rule events_eq)
     (simp add: readDir_def thenP_guard_state catchConvert_state callNative_state emit_def
        afterGuard_def thenP_state_pure resolve_state split: sum.splits)

lemma stat_events:
  "events (stat cfg mgr p) s =
     Guard p # guardNative cfg p @
       (case fst (ensureValidRoot cfg mgr p s) of Inl e \<Rightarrow> [] | Inr u \<Rightarrow> [Native (Stat p)])"
  by (rule events_eq)
     (simp add: stat_def thenP_guard_state catchConvert_state callNative_state emit_def
        afterGuard_def thenP_state_pure resolve_state split: sum.splits)

lemma exists_events:
  "events (exists cfg mgr p) s =
     Guard p # guardNative cfg p @
       (case fst (ensureValidRoot cfg mgr p s) of Inl e \<Rightarrow> [] | Inr u \<Rightarrow> [Native (Exists p)])"
  by (rule events_eq)
     (simp add: exists_def thenP_guard_state catchConvert_state callNative_state emit_def
        afterGuard_def split: sum.splits)

lemma readFile_events:
  "events (readFile cfg mgr cd p enc) s =
     Guard p # guardNative cfg p @
       (case fst (ensureValidRoot cfg mgr p s) of Inl e \<Rightarrow> [] | Inr u \<Rightarrow> [Native (ReadFile p)])"
  by (rule events_eq)
     (simp add: readFile_def Let_def thenP_guard_state catchConvert_state callNative_state emit_def
        afterGuard_def thenP_state_pure resolve_state reject_state settle_state split: sum.splits)

lemma writeFile_events:
  "events (writeFile cfg mgr cd p contents enc opts) s =
     (case encodeContents cd contents (encodingOrDefault enc) of
        Inl e \<Rightarrow> []
      | Inr b64 \<Rightarrow>
          Guard p # guardNative cfg p @
            (case fst (ensureValidRoot cfg mgr p s) of
               Inl e \<Rightarrow> [] | Inr u \<Rightarrow> [Native (WriteFile p b64 opts)]))"
  by (rule events_eq)
     (simp add: writeFile_def Let_def thenP_guard_state catchConvert_state callNative_state emit_def
        afterGuard_def reject_state split: sum.splits)

lemma moveFile_events:
  "events (moveFile cfg mgr p q) s =
     Guard p # guardNative cfg p @
       (case fst (ensureValidRoot cfg mgr p s) of Inl e \<Rightarrow> [] | Inr u \<Rightarrow> [Native (MoveFile p q)])"
  by (rule events_eq)
     (simp add: moveFile_def thenP_guard_state catchConvert_state callNative_state emit_def
        afterGuard_def split: sum.splits)

lemma mkdir_events:
  "events (mkdir cfg mgr p ex) s =
     Guard p # guardNative cfg p @
       (case fst (ensureValidRoot cfg mgr p s) of
          Inl e \<Rightarrow> [] | Inr u \<Rightarrow> [Native (Mkdir (Some p) (ex = Some True))])"
  by (rule events_eq)
     (simp add: mkdir_def Let_def thenP_guard_state catchConvert_state callNative_state emit_def
        afterGuard_def split: sum.splits)

lemma readDir_state:
  "snd (readDir cfg mgr p s) = s\<lparr>trace := trace s @ events (readDir cfg mgr p) s\<rparr>"
  by (simp add: readDir_events)
     (simp add: readDir_def thenP_guard_state catchConvert_state callNative_state emit_def
        afterGuard_def thenP_state_pure resolve_state split: sum.splits)

lemma readdir_events:
  "events (readdir cfg mgr p) s =
     Guard p # guardNative cfg p @
       (case fst (ensureValidRoot cfg mgr p s) of
          Inl e \<Rightarrow> []
        | Inr u \<Rightarrow> events (readDir cfg mgr p) (afterGuard cfg p s))"
  by (rule events_eq)
     (simp add: readdir_def thenP_guard_state thenP_state_pure resolve_state readDir_state
        afterGuard_def split: sum.splits)

lemma subscribe_eq:
  "subscribe cfg ev cb subs s =
     ((if nativeAppAddListener cfg then Some (Subscription NativeAppEventEmitter ev cb) else fst subs,
       if deviceAddListener cfg then Some (Subscription DeviceEventEmitter ev cb) else snd subs),
      s\<lparr>trace := trace s @ registrations cfg ev cb\<rparr>)"
  by (simp add: subscribe_def registrations_def addListener_def emit_def Let_def)


lemma removeIfSet_both:
  "removeIfSet b (removeIfSet a s) = s\<lparr>trace := trace s @ releases (a, b)\<rparr>"
  by (simp add: removeIfSet_def releases_def emit_def split: option.splits)

lemma downloadFile_eq:
  "downloadFile cfg mgr url f begin0 progress s =
     thenP (ensureValidRoot cfg mgr f) (\<lambda>u.
        catchConvert
          (thenP (callNative (DownloadFile url f (fst (getJobId s)))
                    (\<lambda>tr. RNFS_downloadFile mgr tr url f (fst (getJobId s))))
             (\<lambda>res t. (Inr res,
                t\<lparr>trace := trace t @ releases (heldHandles cfg (fst (getJobId s)) begin0 progress)\<rparr>))))
       (afterSetup cfg begin0 progress s)"
  by (cases begin0; cases progress)
     (simp_all add: downloadFile_def getJobId_def Let_def subscribe_eq removeIfSet_both
        heldHandles_def afterSetup_def downloadRegistrations_def beginOrDefault_def)


lemma events_eq_trace: "trace (snd (m s)) = trace s @ evs \<Longrightarrow> events m s = evs"
  by (simp add: events_def)

lemma download_cont_trace:
  "trace (snd (catchConvert
      (thenP (callNative c a) (\<lambda>res t. (Inr res, t\<lparr>trace := trace t @ rel\<rparr>))) t0)) =
     trace t0 @ Native c # (case a (trace t0) of Inl e \<Rightarrow> [] | Inr res \<Rightarrow> rel)"
  by (simp add: catchConvert_state) (simp add: thenP_def callNative_def emit_def split: sum.splits)

lemma downloadFile_events:
  "events (downloadFile cfg mgr url f begin0 progress) s =
     downloadRegistrations cfg (fst (getJobId s)) begin0 progress @
     Guard f # guardNative cfg f @
       (case fst (ensureValidRoot cfg mgr f (afterSetup cfg begin0 progress s)) of
          Inl e \<Rightarrow> []
        | Inr u \<Rightarrow>
            Native (DownloadFile url f (fst (getJobId s))) #
              (case RNFS_downloadFile mgr
                      (trace (afterGuard cfg f (afterSetup cfg begin0 progress s)))
                      url f (fst (getJobId s)) of
                 Inl e \<Rightarrow> []
               | Inr res \<Rightarrow> releases (heldHandles cfg (fst (getJobId s)) begin0 progress)))"
  by (rule events_eq_trace)
     (simp add: downloadFile_eq thenP_guard_state download_cont_trace afterGuard_def
        afterSetup_def split: sum.splits)

lemma guardCalls_registrations: "guardCalls (registrations cfg ev cb) = []"
  by (simp add: registrations_def)

lemma guardCalls_downloadRegistrations: "guardCalls (downloadRegistrations cfg j b p) = []"
  by (simp add: downloadRegistrations_def guardCalls_append guardCalls_registrations
      split: option.splits)

lemma guardCalls_releases: "guardCalls (releases subs) = []"
  by (simp add: releases_def split: option.splits)

lemma takeWhile_before_guard:
  "guardCalls xs = [] \<Longrightarrow> takeWhile (\<lambda>ev. \<not> isGuard ev) (xs @ Guard p # rest) = xs"
  by (induction xs rule: guardCalls.induct) auto

lemma no_native_registrations: "\<not> list_ex isNative (registrations cfg ev cb)"
  by (simp add: registrations_def)

lemma no_native_downloadRegistrations:
  "\<not> list_ex isNative (downloadRegistrations cfg j b p)"
  by (simp add: downloadRegistrations_def no_native_registrations split: option.splits)

lemma downloadFile_guarded: "guardedOnce f (events (downloadFile cfg mgr url f begin0 progress) s)"
  by (simp add: downloadFile_events guardedOnce_def guardFirst_def guardCalls_append
        guardCalls_downloadRegistrations guardCalls_guardNative guardCalls_releases
        takeWhile_before_guard no_native_downloadRegistrations
        split: sum.splits)

lemma guarded_plain:
  "guardedOnce p (Guard p # guardNative cfg p @ (case r of Inl e \<Rightarrow> [] | Inr u \<Rightarrow> [Native c]))"
  by (rule guardedOnce_shape) simp

lemma guardCalls_readDir: "guardCalls (events (readDir cfg mgr p) s) = [p]"
  by (simp add: readDir_events guardCalls_append guardCalls_guardNative)

lemma readdir_guardCalls:
  "guardCalls (events (readdir cfg mgr p) s) =
     (case fst (ensureValidRoot cfg mgr p s) of Inl e \<Rightarrow> [p] | Inr u \<Rightarrow> [p, p])"
  by (simp add: readdir_events guardCalls_append guardCalls_guardNative guardCalls_readDir
      split: sum.splits)

lemma readdir_guardFirst: "guardFirst (events (readdir cfg mgr p) s)"
  by (simp add: readdir_events guardFirst_def)

text \<open>
  Claim C5, amended. Every public file operation enters the guard on its original
  target path (the source path for \<open>moveFile\<close>, the destination file for
  \<open>downloadFile\<close>) before it calls any primitive of the native module. \<open>readDir\<close>,
  \<open>stat\<close>, \<open>exists\<close>, \<open>readFile\<close>, \<open>moveFile\<close>, \<open>unlink\<close>, \<open>mkdir\<close> and \<open>downloadFile\<close>
  enter it exactly once per call. \<open>writeFile\<close> enters it exactly once when encoding the
  content succeeds, and causes no event at all when that step throws. \<open>readdir\<close> enters
  it once itself and, when that invocation succeeds, a second time on the same path
  through \<open>readDir\<close>.
\<close>

theorem guard_invocations:
  "guardedOnce p (events (readDir cfg mgr p) s)
   \<and> guardedOnce p (events (stat cfg mgr p) s)
   \<and> guardedOnce p (events (exists cfg mgr p) s)
   \<and> guardedOnce p (events (readFile cfg mgr cd p enc) s)
   \<and> guardedOnce p (events (moveFile cfg mgr p dest) s)
   \<and> guardedOnce p (events (unlink cfg mgr p) s)
   \<and> guardedOnce p (events (mkdir cfg mgr p ex) s)
   \<and> guardedOnce p (events (downloadFile cfg mgr url p begin0 progress) s)
   \<and> (case encodeContents cd contents (encodingOrDefault enc) of
         Inl e \<Rightarrow> events (writeFile cfg mgr cd p contents enc opts) s = []
       | Inr b64 \<Rightarrow> guardedOnce p (events (writeFile cfg mgr cd p contents enc opts) s))
   \<and> guardFirst (events (readdir cfg mgr p) s)
   \<and> guardCalls (events (readdir cfg mgr p) s) =
         (case fst (ensureValidRoot cfg mgr p s) of Inl e \<Rightarrow> [p] | Inr u \<Rightarrow> [p, p])"
proof -
  have w: "case encodeContents cd contents (encodingOrDefault enc) of
         Inl e \<Rightarrow> events (writeFile cfg mgr cd p contents enc opts) s = []
       | Inr b64 \<Rightarrow> guardedOnce p (events (writeFile cfg mgr cd p contents enc opts) s)"
    by (simp add: writeFile_events guarded_plain split: sum.splits)
  show ?thesis
    using w readdir_guardFirst [of cfg mgr p s] readdir_guardCalls [of cfg mgr p s]
      downloadFile_guarded [of p cfg mgr url begin0 progress s]
    by (simp add: readDir_events stat_events exists_events readFile_events moveFile_events
        unlink_events mkdir_events guarded_plain)
qed

text \<open>
  Claim C5, as stated, fails for \<open>readdir\<close>: on a path inside the documents root the
  guard is entered twice in one call.
\<close>

theorem readdir_guards_twice:
  "guardCalls (events (readdir iosConfig okNative ''/app/Documents/siphon-data-demo/d'') initState)
     = [''/app/Documents/siphon-data-demo/d'', ''/app/Documents/siphon-data-demo/d'']"
  by code_simp

section \<open>Failures of the guard, of the encoding check and of the release\<close>

lemma rootDir_caches_ok:
  "rootDir cfg p = Inr root \<Longrightarrow> \<exists>c. processDirPath cfg (NSCachesDirectoryPath cfg) = Inr c"
  by (auto simp: rootDir_def validDirs_def Let_def split: sum.splits)

lemma ensureValidRoot_invalid_root:
  assumes "rootDir cfg p = Inr None"
  shows "ensureValidRoot cfg mgr p s =
           (Inl invalidRootError, s\<lparr>trace := trace s @ [Guard p, Native (Mkdir None False)]\<rparr>)"
proof -
  obtain c where "processDirPath cfg (NSCachesDirectoryPath cfg) = Inr c"
    using rootDir_caches_ok [OF assms] by blast
  with assms show ?thesis
    by (simp add: ensureValidRoot_def Let_def emit_def callNative_def)
qed

text \<open>
  Claim C1 at the input \<open>unlink('/tmp/other/file.txt')\<close> on the iOS configuration: the
  path lies under no configured root and the operation is rejected with the error that
  names the three legal directories, but the directory-creation primitive has been
  called, with \<^verbatim>\<open>null\<close> as the path. Lemma \<open>ensureValidRoot_invalid_root\<close> above shows
  the same for every path without a root and every native module.
\<close>

theorem invalid_root_still_calls_mkdir:
  "rootDir iosConfig ''/tmp/other/file.txt'' = Inr None
   \<and> unlink iosConfig okNative ''/tmp/other/file.txt'' initState =
       (Inl invalidRootError,
        \<lparr>trace = [Guard ''/tmp/other/file.txt'', Native (Mkdir None False)], jobId = 0\<rparr>)"
  by code_simp

text \<open>
  Claim C3 at the input \<open>readFile(p, 'hex')\<close> for a path inside the documents root:
  the operation is rejected with the invalid-encoding error only after the
  directory-creation primitive and the read primitive have been called. For
  \<open>writeFile\<close> the check comes first (lemma \<open>writeFile_invalid_encoding\<close> below).
\<close>

theorem readFile_invalid_encoding_after_io:
  "readFile iosConfig okNative idCodec ''/app/Documents/siphon-data-demo/f.txt'' (Some ''hex'')
     initState =
     (Inl (invalidEncodingError ''hex''),
      \<lparr>trace = [Guard ''/app/Documents/siphon-data-demo/f.txt'',
                Native (Mkdir (Some ''/app/Documents/siphon-data-demo'') False),
                Native (ReadFile ''/app/Documents/siphon-data-demo/f.txt'')],
       jobId = 0\<rparr>)"
  by code_simp

lemma writeFile_invalid_encoding:
  assumes "truthy enc" and "the enc \<noteq> ''utf8''" and "the enc \<noteq> ''ascii''"
    and "the enc \<noteq> ''base64''"
  shows "writeFile cfg mgr cd p contents enc opts s = (Inl (invalidEncodingError (the enc)), s)"
  using assms
  by (simp add: writeFile_def encodeContents_def encodingOrDefault_def reject_def)

text \<open>
  What \<open>downloadFile\<close> releases, for every input: nothing when the operation is rejected,
  and otherwise only the handles that the two variables hold at the end of the setup.
  The begin handle is not among them once a progress callback is supplied.
\<close>

lemma released_append: "released (xs @ ys) = released xs @ released ys"
  by (induction xs rule: released.induct) auto

lemma attached_append: "attached (xs @ ys) = attached xs @ attached ys"
  by (induction xs rule: attached.induct) auto

lemma released_registrations: "released (registrations cfg ev cb) = []"
  by (simp add: registrations_def)

lemma released_downloadRegistrations: "released (downloadRegistrations cfg j b p) = []"
  by (simp add: downloadRegistrations_def released_append released_registrations
      split: option.splits)

lemma released_guardNative: "released (guardNative cfg p) = []"
  by (simp add: guardNative_def split: sum.splits)

lemma downloadFile_released:
  "released (events (downloadFile cfg mgr url f begin0 progress) s) =
     (case fst (downloadFile cfg mgr url f begin0 progress s) of
        Inl e \<Rightarrow> []
      | Inr res \<Rightarrow> released (releases (heldHandles cfg (fst (getJobId s)) begin0 progress)))"
proof -
  obtain r where g: "ensureValidRoot cfg mgr f (afterSetup cfg begin0 progress s)
      = (r, afterGuard cfg f (afterSetup cfg begin0 progress s))"
    using ensureValidRoot_state [of cfg mgr f "afterSetup cfg begin0 progress s"]
    by (cases "ensureValidRoot cfg mgr f (afterSetup cfg begin0 progress s)") auto
  show ?thesis
    by (cases r)
       (simp_all add: downloadFile_events released_append released_downloadRegistrations
          released_guardNative g downloadFile_eq thenP_def catchConvert_def catchP_def
          callNative_def reject_def split: sum.splits)
qed

lemma begin_handle_lost:
  assumes "nativeAppAddListener cfg"
  shows "Subscription NativeAppEventEmitter (''DownloadBegin-'' @ showNat (fst (getJobId s))) b
           \<in> set (attached (events (downloadFile cfg mgr url f (Some b) (Some p)) s))
       \<and> Subscription NativeAppEventEmitter (''DownloadBegin-'' @ showNat (fst (getJobId s))) b
           \<notin> set (released (events (downloadFile cfg mgr url f (Some b) (Some p)) s))"
proof -
  have "attached (events (downloadFile cfg mgr url f (Some b) (Some p)) s)
      = attached (downloadRegistrations cfg (fst (getJobId s)) (Some b) (Some p)) @
        attached (drop (length (downloadRegistrations cfg (fst (getJobId s)) (Some b) (Some p)))
                    (events (downloadFile cfg mgr url f (Some b) (Some p)) s))"
    by (simp add: downloadFile_events attached_append)
  then have att: "Subscription NativeAppEventEmitter (''DownloadBegin-'' @ showNat (fst (getJobId s))) b
      \<in> set (attached (events (downloadFile cfg mgr url f (Some b) (Some p)) s))"
    using assms
    by (simp add: downloadRegistrations_def beginOrDefault_def registrations_def attached_append)
  have "Subscription NativeAppEventEmitter (''DownloadBegin-'' @ showNat (fst (getJobId s))) b
      \<notin> set (released (releases (heldHandles cfg (fst (getJobId s)) (Some b) (Some p))))"
    by (simp add: heldHandles_def releases_def Let_def released_append)
  then have rel: "Subscription NativeAppEventEmitter (''DownloadBegin-'' @ showNat (fst (getJobId s))) b
      \<notin> set (released (events (downloadFile cfg mgr url f (Some b) (Some p)) s))"
    by (simp add: downloadFile_released split: sum.splits)
  from att rel show ?thesis by blast
qed

text \<open>
  Claim C2 at two inputs on the iOS configuration. With a begin and a progress callback
  and a successful download, two handles are obtained and only the progress handle is
  released: the begin handle was overwritten in \<open>subscriptionIos\<close>. With a begin
  callback and a download that fails, the handle obtained is not released at all: the
  release is in the success continuation only. Lemmas \<open>downloadFile_released\<close> and
  \<open>begin_handle_lost\<close> above show both for every input.
\<close>

theorem downloadFile_handles_not_released:
  "attached (trace (snd (downloadFile iosConfig okNative ''http://host/a''
       ''/app/Documents/siphon-data-demo/a'' (Some (UserCallback 1)) (Some (UserCallback 2))
       initState)))
     = [Subscription NativeAppEventEmitter ''DownloadBegin-1'' (UserCallback 1),
        Subscription NativeAppEventEmitter ''DownloadProgress-1'' (UserCallback 2)]
   \<and> released (trace (snd (downloadFile iosConfig okNative ''http://host/a''
       ''/app/Documents/siphon-data-demo/a'' (Some (UserCallback 1)) (Some (UserCallback 2))
       initState)))
     = [Subscription NativeAppEventEmitter ''DownloadProgress-1'' (UserCallback 2)]
   \<and> fst (downloadFile iosConfig failingDownload ''http://host/a''
       ''/app/Documents/siphon-data-demo/a'' (Some (UserCallback 1)) None initState)
     = Inl (JSError ''The network connection was lost.'' (Some ''ENETWORK'') None False None)
   \<and> attached (trace (snd (downloadFile iosConfig failingDownload ''http://host/a''
       ''/app/Documents/siphon-data-demo/a'' (Some (UserCallback 1)) None initState)))
     = [Subscription NativeAppEventEmitter ''DownloadBegin-1'' (UserCallback 1)]
   \<and> released (trace (snd (downloadFile iosConfig failingDownload ''http://host/a''
       ''/app/Documents/siphon-data-demo/a'' (Some (UserCallback 1)) None initState)))
     = []"
  by code_simp

text \<open>
  Claim C4, as stated, fails: a download without a begin callback on the Android
  configuration obtains a subscription handle for the default begin callback, and
  releases it when the download succeeds.
\<close>

theorem default_begin_is_subscribed:
  "attached (trace (snd (downloadFile androidConfig okNative ''http://host/a''
       ''/data/app/files/siphon-data-demo/a'' None None initState)))
     = [Subscription DeviceEventEmitter ''DownloadBegin-1'' DefaultBeginLog]
   \<and> released (trace (snd (downloadFile androidConfig okNative ''http://host/a''
       ''/data/app/files/siphon-data-demo/a'' None None initState)))
     = [Subscription DeviceEventEmitter ''DownloadBegin-1'' DefaultBeginLog]"
  by code_simp

lemma attached_registrations:
  "attached (registrations cfg ev cb) =
     (if nativeAppAddListener cfg then [Subscription NativeAppEventEmitter ev cb] else []) @
     (if deviceAddListener cfg then [Subscription DeviceEventEmitter ev cb] else [])"
  by (simp add: registrations_def)

text \<open>
  Claim C4, amended. When no begin callback is supplied, \<open>downloadFile\<close> behaves exactly
  as if the default begin callback, which only logs the download-start metadata, had
  been supplied by the caller: it is registered for \<open>DownloadBegin-<jobId>\<close> on every
  available event emitter, and each registration yields a subscription handle.
\<close>

theorem default_begin_subscribed_like_supplied:
  "downloadFile cfg mgr url f None progress s
     = downloadFile cfg mgr url f (Some DefaultBeginLog) progress s
   \<and> defaultBegin info = [ConsoleLog [''Download begun:'', info]]
   \<and> prefix (registrations cfg (''DownloadBegin-'' @ showNat (fst (getJobId s))) DefaultBeginLog)
        (events (downloadFile cfg mgr url f None progress) s)
   \<and> attached (registrations cfg (''DownloadBegin-'' @ showNat (fst (getJobId s))) DefaultBeginLog)
       = (if nativeAppAddListener cfg
          then [Subscription NativeAppEventEmitter (''DownloadBegin-'' @ showNat (fst (getJobId s)))
                  DefaultBeginLog] else []) @
         (if deviceAddListener cfg
          then [Subscription DeviceEventEmitter (''DownloadBegin-'' @ showNat (fst (getJobId s)))
                  DefaultBeginLog] else [])"
proof -
  have 1: "downloadFile cfg mgr url f None progress s
     = downloadFile cfg mgr url f (Some DefaultBeginLog) progress s"
    by (simp add: downloadFile_def)
  have 2: "defaultBegin info = [ConsoleLog [''Download begun:'', info]]"
    by (simp add: defaultBegin_def)
  have 3: "prefix (registrations cfg (''DownloadBegin-'' @ showNat (fst (getJobId s))) DefaultBeginLog)
        (events (downloadFile cfg mgr url f None progress) s)"
    by (simp add: prefix_def downloadFile_events downloadRegistrations_def beginOrDefault_def)
  from 1 2 3 attached_registrations show ?thesis by blast
qed

end
